theory Spec2Isabelle
  imports Main
begin

section \<open>JavaScript values\<close>

text \<open>
  The client of \<^verbatim>\<open>src/lib/notion-mcp-server.ts\<close> exchanges JSON texts with a child
  process. A parsed message, a request parameter and a settled promise's value are
  JavaScript values; the ones JSON can denote, and \<^verbatim>\<open>undefined\<close> (what reading a missing
  property gives), are modelled by \<open>jsval\<close>. A number \<open>JNum m e\<close> stands for the
  decimal \<open>m * 10^e\<close> of the JSON text; an object keeps its members in the order of the
  text. Strings are lists of code units below 256.
\<close>

datatype jsval =
    JUndefined
  | JNull
  | JBool bool
  | JNum int int
  | JStr string
  | JArr "jsval list"
  | JObj "(string \<times> jsval) list"

text \<open>
  A JSON number becomes the nearest double, ties to even. The smallest positive double is
  \<open>2^-1074\<close>, so the decimal \<open>m * 10^e\<close> becomes zero exactly when its magnitude is at most
  \<open>2^-1075\<close>.
\<close>

definition rounds_to_zero :: "int \<Rightarrow> int \<Rightarrow> bool" where
  "rounds_to_zero m e =
     (m = 0 \<or> (e < 0 \<and> \<bar>m\<bar> * 2 ^ 1075 \<le> 10 ^ nat (- e)))"

text \<open>\<^verbatim>\<open>if (v)\<close> and \<^verbatim>\<open>!v\<close>: the falsy values are undefined, null, false, zero and the
  empty string.\<close>

fun truthy :: "jsval \<Rightarrow> bool" where
  "truthy JUndefined = False"
| "truthy JNull = False"
| "truthy (JBool b) = b"
| "truthy (JNum m e) = (\<not> rounds_to_zero m e)"
| "truthy (JStr s) = (s \<noteq> [])"
| "truthy (JArr xs) = True"
| "truthy (JObj kvs) = True"

text \<open>
  \<^verbatim>\<open>v.key\<close> for the four keys the client reads (\<^verbatim>\<open>id\<close>, \<^verbatim>\<open>error\<close>, \<^verbatim>\<open>result\<close>,
  \<^verbatim>\<open>message\<close>), none of which a built-in prototype defines. Reading a property of
  \<^verbatim>\<open>undefined\<close> or \<^verbatim>\<open>null\<close> throws a TypeError (the result \<open>None\<close>); an object gives its
  member, the last one when the text repeated the key; everything else gives
  \<^verbatim>\<open>undefined\<close>.
\<close>

fun get_property :: "jsval \<Rightarrow> string \<Rightarrow> jsval option" where
  "get_property JUndefined k = None"
| "get_property JNull k = None"
| "get_property (JObj kvs) k =
     Some (case map_of (rev kvs) k of None \<Rightarrow> JUndefined | Some v \<Rightarrow> v)"
| "get_property v k = Some JUndefined"

text \<open>The same where the source has already read a property of the value, so that it is
  neither undefined nor null.\<close>

definition prop_of :: "jsval \<Rightarrow> string \<Rightarrow> jsval" where
  "prop_of v k = (case get_property v k of None \<Rightarrow> JUndefined | Some x \<Rightarrow> x)"

section \<open>Strings: \<^verbatim>\<open>String(n)\<close>, \<^verbatim>\<open>trim\<close>, \<^verbatim>\<open>split\<close>, \<^verbatim>\<open>startsWith\<close>\<close>

definition digit_char :: "nat \<Rightarrow> char" where
  "digit_char d = ''0123456789'' ! d"

text \<open>\<^verbatim>\<open>String(n)\<close> of a non-negative integer below \<open>10^21\<close>: its decimal digits.\<close>

fun js_String :: "nat \<Rightarrow> string" where
  "js_String n =
     (if n < 10 then [digit_char n]
      else js_String (n div 10) @ [digit_char (n mod 10)])"

declare js_String.simps [simp del]

text \<open>
  \<^verbatim>\<open>messageId\<close> is a JavaScript number, a double. Counting up from 0 is exact as far as
  \<open>2^53\<close>; there \<^verbatim>\<open>messageId++\<close> computes \<open>2^53 + 1\<close>, which lies halfway between the
  doubles \<open>2^53\<close> and \<open>2^53 + 2\<close> and rounds to the even one, \<open>2^53\<close>: the counter stays.
  (No value above \<open>2^53\<close> is ever reached from 0.)
\<close>

definition max_safe :: nat where
  "max_safe = 2 ^ 53"

definition js_increment :: "nat \<Rightarrow> nat" where
  "js_increment n = (if n < max_safe then n + 1 else n)"

definition newline :: char where
  "newline = CHR 0x0A"

text \<open>The white space and line terminators \<^verbatim>\<open>trim\<close> removes, among code units below 256:
  TAB, LF, VT, FF, CR, space and the no-break space.\<close>

definition is_space :: "char \<Rightarrow> bool" where
  "is_space c = (c \<in> {CHR 0x09, CHR 0x0A, CHR 0x0B, CHR 0x0C, CHR 0x0D, CHR 0x20, CHR 0xA0})"

definition trim :: "string \<Rightarrow> string" where
  "trim s = rev (dropWhile is_space (rev (dropWhile is_space s)))"

text \<open>\<^verbatim>\<open>s.split("\n")\<close>: the pieces between line feeds; one piece, the empty one, for the
  empty string.\<close>

primrec split_newline :: "string \<Rightarrow> string list" where
  "split_newline [] = [[]]"
| "split_newline (c # cs) =
     (if c = newline then [] # split_newline cs
      else (case split_newline cs of [] \<Rightarrow> [[c]] | l # ls \<Rightarrow> (c # l) # ls))"

definition startsWith_brace :: "string \<Rightarrow> bool" where
  "startsWith_brace s = (case s of [] \<Rightarrow> False | c # cs \<Rightarrow> c = CHR 0x7B)"

section \<open>The client and its run-time environment\<close>

text \<open>
  A request as \<^verbatim>\<open>sendRequest\<close> builds it. The line written to the process is
  \<^verbatim>\<open>JSON.stringify(request) + "\n"\<close>; the model keeps the request itself. The
  parameters are values JSON can denote (what the callers of this repository pass), so
  that \<^verbatim>\<open>JSON.stringify\<close> returns. What is recorded is the write, not its delivery to the
  process.
\<close>

record request =
  jsonrpc :: string
  rid :: string
  rmethod :: string
  rparams :: jsval

text \<open>An \<^verbatim>\<open>Error\<close> object, by the argument of \<^verbatim>\<open>new Error(...)\<close>: its message is that
  string (empty for \<^verbatim>\<open>undefined\<close>).\<close>

datatype js_error = JsError jsval

datatype outcome = Pending | Resolved jsval | Rejected js_error

text \<open>The closure \<^verbatim>\<open>setTimeout\<close> is given in \<^verbatim>\<open>sendRequest\<close> captures \<^verbatim>\<open>id\<close> and
  \<^verbatim>\<open>method\<close>; the delay is the second argument.\<close>

record timeout =
  captured_id :: string
  captured_method :: string
  delay_ms :: nat

text \<open>What the code prints with \<^verbatim>\<open>console.debug\<close>, \<^verbatim>\<open>console.error\<close> and
  \<^verbatim>\<open>console.log\<close>, one constructor for each call in the source, with the data of
  the program it prints.\<close>

datatype console_entry =
    RawResponse string
  | SkippingNonJSON string
  | ParsedResponse jsval
  | ResponseHasNoId string
  | ErrorInResponse jsval
  | NoPendingRequest jsval
  | ErrorParsingJSON string
  | SendingRequest request
  | ErrorListingTools js_error
  | ShuttingDown string
  | ProcessExited "int option" "string option"
  | ServerError string

text \<open>The calls of \<^verbatim>\<open>sendRequest\<close> that act outside the promise it returns: \<^verbatim>\<open>setTimeout\<close>
  (with the handle and the closure of the timer), \<^verbatim>\<open>this.messageQueue.set\<close> (with the key
  and the handle of the entry) and \<^verbatim>\<open>this.process.stdin.write\<close> (with the request whose
  line is written). The state keeps the list of these calls in the order in which the
  program makes them.\<close>

datatype effect = TimerArmed nat timeout | EntryStored string nat | LineWritten request

text \<open>
  The state: the fields of the \<^verbatim>\<open>StdioClient\<close> instance (\<open>messageId\<close>,
  \<open>messageQueue\<close>, and what has been written to \<open>stdin\<close>), the module's two variables
  (\<open>True\<close> when not \<^verbatim>\<open>null\<close>), the signals sent to the child process, and the run-time
  objects the instance's closures refer to: the timers not yet run or cleared, the promises
  \<^verbatim>\<open>sendRequest\<close> has returned, and the console. A call of \<^verbatim>\<open>sendRequest\<close> creates one
  promise and one timer; both are addressed by the call's handle, and the entry
  \<^verbatim>\<open>{resolve, reject}\<close> it stores in \<open>messageQueue\<close> is represented by that handle (see
  \<open>entry_resolve\<close> and \<open>entry_reject\<close>). The last field, \<open>effects\<close>, is no object of the
  program: it is the order in which \<^verbatim>\<open>setTimeout\<close>, \<^verbatim>\<open>messageQueue.set\<close> and
  \<^verbatim>\<open>stdin.write\<close> have been called, each call added at the end when it is made; nothing
  reads it.
\<close>

record state =
  messageId :: nat
  messageQueue :: "string \<rightharpoonup> nat"
  stdin :: "request list"
  timers :: "nat \<rightharpoonup> timeout"
  promises :: "nat \<rightharpoonup> outcome"
  nextHandle :: nat
  console :: "console_entry list"
  notionMCPServerProcess :: bool
  notionMCPClient :: bool
  kill_signals :: nat
  effects :: "effect list"

text \<open>The constructor of \<^verbatim>\<open>StdioClient\<close>, in a module whose process has just been
  spawned.\<close>

definition new_StdioClient :: state where
  "new_StdioClient =
     \<lparr>messageId = 0, messageQueue = Map.empty, stdin = [], timers = Map.empty,
      promises = Map.empty, nextHandle = 0, console = [],
      notionMCPServerProcess = True, notionMCPClient = True, kill_signals = 0,
      effects = []\<rparr>"

definition console_print :: "console_entry \<Rightarrow> state \<Rightarrow> state" where
  "console_print e s = s\<lparr>console := console s @ [e]\<rparr>"

text \<open>A promise settles once: \<^verbatim>\<open>resolve\<close> and \<^verbatim>\<open>reject\<close> do nothing to a settled one.\<close>

definition promise_resolve :: "nat \<Rightarrow> jsval \<Rightarrow> state \<Rightarrow> state" where
  "promise_resolve h v s =
     (if promises s h = Some Pending then s\<lparr>promises := (promises s)(h \<mapsto> Resolved v)\<rparr> else s)"

definition promise_reject :: "nat \<Rightarrow> js_error \<Rightarrow> state \<Rightarrow> state" where
  "promise_reject h r s =
     (if promises s h = Some Pending then s\<lparr>promises := (promises s)(h \<mapsto> Rejected r)\<rparr> else s)"

definition clearTimeout :: "nat \<Rightarrow> state \<Rightarrow> state" where
  "clearTimeout h s = s\<lparr>timers := (timers s)(h := None)\<rparr>"

definition setTimeout :: "nat \<Rightarrow> timeout \<Rightarrow> state \<Rightarrow> state" where
  "setTimeout h t s =
     s\<lparr>timers := (timers s)(h \<mapsto> t), effects := effects s @ [TimerArmed h t]\<rparr>"

text \<open>The two closures stored in \<open>messageQueue\<close> by the call with handle \<open>h\<close>.\<close>

definition entry_resolve :: "nat \<Rightarrow> jsval \<Rightarrow> state \<Rightarrow> state" where
  "entry_resolve h v s = promise_resolve h v (clearTimeout h s)"

definition entry_reject :: "nat \<Rightarrow> js_error \<Rightarrow> state \<Rightarrow> state" where
  "entry_reject h r s = promise_reject h r (clearTimeout h s)"

text \<open>\<open>messageQueue\<close> is a \<^verbatim>\<open>Map\<close> whose keys are strings: \<^verbatim>\<open>get\<close> and \<^verbatim>\<open>delete\<close> with a
  key that is not a string find nothing.\<close>

definition messageQueue_get :: "jsval \<Rightarrow> state \<Rightarrow> nat option" where
  "messageQueue_get k s = (case k of JStr i \<Rightarrow> messageQueue s i | _ \<Rightarrow> None)"

definition messageQueue_delete :: "jsval \<Rightarrow> state \<Rightarrow> state" where
  "messageQueue_delete k s =
     (case k of JStr i \<Rightarrow> s\<lparr>messageQueue := (messageQueue s)(i := None)\<rparr> | _ \<Rightarrow> s)"

definition messageQueue_set :: "string \<Rightarrow> nat \<Rightarrow> state \<Rightarrow> state" where
  "messageQueue_set i h s =
     s\<lparr>messageQueue := (messageQueue s)(i \<mapsto> h), effects := effects s @ [EntryStored i h]\<rparr>"

definition stdin_write :: "request \<Rightarrow> state \<Rightarrow> state" where
  "stdin_write r s = s\<lparr>stdin := stdin s @ [r], effects := effects s @ [LineWritten r]\<rparr>"

subsection \<open>\<^verbatim>\<open>sendRequest\<close>\<close>

definition timeout_error :: "string \<Rightarrow> js_error" where
  "timeout_error m = JsError (JStr (''Request timed out after 10 seconds: '' @ m))"

text \<open>The executor of the promise up to the write: it arms the timer, then stores the
  entry.\<close>

definition register_pending :: "nat \<Rightarrow> string \<Rightarrow> string \<Rightarrow> state \<Rightarrow> state" where
  "register_pending h i m s =
     messageQueue_set i h
       (setTimeout h \<lparr>captured_id = i, captured_method = m, delay_ms = 10000\<rparr> s)"

definition new_Promise :: "state \<Rightarrow> nat \<times> state" where
  "new_Promise s =
     (nextHandle s,
      s\<lparr>promises := (promises s)(nextHandle s \<mapsto> Pending), nextHandle := nextHandle s + 1\<rparr>)"

definition make_request :: "string \<Rightarrow> string \<Rightarrow> jsval \<Rightarrow> request" where
  "make_request i m p = \<lparr>jsonrpc = ''2.0'', rid = i, rmethod = m, rparams = p\<rparr>"

text \<open>The executor runs inside \<^verbatim>\<open>new Promise\<close>, so a call of \<^verbatim>\<open>sendRequest\<close> runs to
  its end before any other code of the program: it is one step.\<close>

definition sendRequest :: "string \<Rightarrow> jsval \<Rightarrow> state \<Rightarrow> nat \<times> state" where
  "sendRequest m p s =
     (let i = js_String (messageId s);
          s1 = s\<lparr>messageId := js_increment (messageId s)\<rparr>;
          r = make_request i m p;
          s2 = console_print (SendingRequest r) s1;
          (h, s3) = new_Promise s2
      in (h, stdin_write r (register_pending h i m s3)))"

text \<open>The timer's callback, and the event loop running the timer of handle \<open>h\<close> (only a
  timer that is still armed runs, and it runs once).\<close>

definition timeout_callback :: "nat \<Rightarrow> timeout \<Rightarrow> state \<Rightarrow> state" where
  "timeout_callback h t s =
     (if messageQueue s (captured_id t) \<noteq> None
      then promise_reject h (timeout_error (captured_method t))
             (s\<lparr>messageQueue := (messageQueue s)(captured_id t := None)\<rparr>)
      else s)"

definition fire_timeout :: "nat \<Rightarrow> state \<Rightarrow> state" where
  "fire_timeout h s =
     (case timers s h of
        None \<Rightarrow> s
      | Some t \<Rightarrow> timeout_callback h t (s\<lparr>timers := (timers s)(h := None)\<rparr>))"

subsection \<open>The listener on the process's output\<close>

text \<open>\<^verbatim>\<open>JSON.parse\<close> is the platform's; the listener is modelled for any parser, \<open>None\<close>
  when it throws.\<close>

type_synonym parser = "string \<Rightarrow> jsval option"

text \<open>The settlement of the pending request found for a response.\<close>

definition settle_pending :: "nat \<Rightarrow> jsval \<Rightarrow> state \<Rightarrow> state" where
  "settle_pending h response s =
     (if truthy (prop_of response ''error'')
      then entry_reject h (JsError (prop_of (prop_of response ''error'') ''message''))
             (console_print (ErrorInResponse (prop_of response ''error'')) s)
      else entry_resolve h (prop_of response ''result'') s)"

text \<open>One pass of the loop over the lines. A TypeError thrown by \<^verbatim>\<open>response.id\<close> is caught
  by the same handler as a parse error.\<close>

definition handle_message :: "parser \<Rightarrow> string \<Rightarrow> state \<Rightarrow> state" where
  "handle_message parse message s =
     (if message = [] then s
      else if \<not> startsWith_brace message then console_print (SkippingNonJSON message) s
      else (case parse message of
              None \<Rightarrow> console_print (ErrorParsingJSON message) s
            | Some response \<Rightarrow>
                (let s1 = console_print (ParsedResponse response) s in
                 case get_property response ''id'' of
                   None \<Rightarrow> console_print (ErrorParsingJSON message) s1
                 | Some i \<Rightarrow>
                     if \<not> truthy i then console_print (ResponseHasNoId message) s1
                     else (case messageQueue_get i s1 of
                             None \<Rightarrow> console_print (NoPendingRequest i) s1
                           | Some h \<Rightarrow> messageQueue_delete i (settle_pending h response s1)))))"

definition on_data :: "parser \<Rightarrow> string \<Rightarrow> state \<Rightarrow> state" where
  "on_data parse rawData s =
     foldl (\<lambda>s' message. handle_message parse message s')
       (console_print (RawResponse rawData) s)
       (split_newline (trim rawData))"

subsection \<open>The facade\<close>

definition server_info :: jsval where
  "server_info = JObj [(''name'', JStr ''notion-mcp-server''), (''version'', JStr ''1.5.0'')]"

definition getServerInfo :: "state \<Rightarrow> outcome \<times> state" where
  "getServerInfo s = (Resolved server_info, s)"

text \<open>\<^verbatim>\<open>getTool(namespace, name).call(params)\<close>.\<close>

definition getTool_call :: "string \<Rightarrow> string \<Rightarrow> jsval \<Rightarrow> state \<Rightarrow> nat \<times> state" where
  "getTool_call namespace name params s =
     sendRequest ''tools/call''
       (JObj [(''name'', JStr (namespace @ ''-'' @ name)), (''arguments'', params)]) s"

text \<open>
  \<^verbatim>\<open>listTools\<close> is an async function: it calls \<^verbatim>\<open>sendRequest\<close> and awaits its promise
  (\<open>listTools\<close>), and goes on when that promise has settled (\<open>listTools_resume\<close>, which
  gives the outcome of the promise \<^verbatim>\<open>listTools\<close> itself returned). An async function that
  returns the promise of \<^verbatim>\<open>sendRequest\<close>, as \<^verbatim>\<open>call\<close> does, settles as that promise does
  (\<open>call_resume\<close>).
\<close>

definition listTools :: "state \<Rightarrow> nat \<times> state" where
  "listTools s = sendRequest ''tools/list'' (JObj []) s"

definition listTools_resume :: "outcome \<Rightarrow> state \<Rightarrow> outcome \<times> state" where
  "listTools_resume out s =
     (case out of
        Pending \<Rightarrow> (Pending, s)
      | Resolved result \<Rightarrow> (Resolved result, s)
      | Rejected err \<Rightarrow>
          (Resolved (JObj [(''tools'', JArr [])]), console_print (ErrorListingTools err) s))"

definition call_resume :: "outcome \<Rightarrow> state \<Rightarrow> outcome \<times> state" where
  "call_resume out s = (out, s)"

subsection \<open>The module: shutdown and the exit handler\<close>

definition shutdownNotionMCPServer :: "string \<Rightarrow> state \<Rightarrow> state" where
  "shutdownNotionMCPServer reason s =
     (let s1 = console_print (ShuttingDown reason) s in
      if notionMCPServerProcess s1
      then s1\<lparr>kill_signals := kill_signals s1 + 1,
              notionMCPServerProcess := False, notionMCPClient := False\<rparr>
      else s1)"

text \<open>The handler of the process's exit, with the exit code and the signal (each may be
  \<^verbatim>\<open>null\<close>).\<close>

definition on_exit :: "int option \<Rightarrow> string option \<Rightarrow> state \<Rightarrow> state" where
  "on_exit code signal s =
     (console_print (ProcessExited code signal) s)
       \<lparr>notionMCPServerProcess := False, notionMCPClient := False\<rparr>"

text \<open>The listener on the process's error stream: what arrives there is printed, never
  parsed.\<close>

definition on_stderr :: "string \<Rightarrow> state \<Rightarrow> state" where
  "on_stderr d s = console_print (ServerError d) s"

subsection \<open>Runs\<close>

text \<open>JavaScript runs one piece of code at a time, each to its end: a run of the program
  is a sequence of calls and callbacks.\<close>

datatype event =
    SendRequest string jsval
  | ListTools
  | ToolCall string string jsval
  | GetServerInfo
  | Data string
  | TimerFires nat
  | Shutdown string
  | ProcessExit "int option" "string option"
  | StderrData string

fun step :: "parser \<Rightarrow> state \<Rightarrow> event \<Rightarrow> state" where
  "step parse s (SendRequest m p) = snd (sendRequest m p s)"
| "step parse s ListTools = snd (listTools s)"
| "step parse s (ToolCall ns n p) = snd (getTool_call ns n p s)"
| "step parse s GetServerInfo = snd (getServerInfo s)"
| "step parse s (Data rawData) = on_data parse rawData s"
| "step parse s (TimerFires h) = fire_timeout h s"
| "step parse s (Shutdown reason) = shutdownNotionMCPServer reason s"
| "step parse s (ProcessExit code signal) = on_exit code signal s"
| "step parse s (StderrData d) = on_stderr d s"

definition run :: "parser \<Rightarrow> state \<Rightarrow> event list \<Rightarrow> state" where
  "run parse s evs = foldl (step parse) s evs"

section \<open>A model of \<^verbatim>\<open>JSON.parse\<close>\<close>

text \<open>
  The theorems below hold for every parser. Where a concrete run is evaluated, the parser
  is this model of \<^verbatim>\<open>JSON.parse\<close>: the JSON grammar (RFC 8259) over code units below 256.
  The recursion is bounded by the length of the text, each call reading at least one
  character; the result says whether the text was refused or the bound was reached.
\<close>

datatype parse_error = SyntaxError | OutOfFuel | OutsideModel

definition is_json_ws :: "char \<Rightarrow> bool" where
  "is_json_ws c = (c \<in> {CHR 0x20, CHR 0x09, CHR 0x0A, CHR 0x0D})"

definition skip_ws :: "string \<Rightarrow> string" where
  "skip_ws s = dropWhile is_json_ws s"

definition is_digit :: "char \<Rightarrow> bool" where
  "is_digit c = (48 \<le> (of_char c :: nat) \<and> (of_char c :: nat) \<le> 57)"

definition digit_value :: "char \<Rightarrow> nat" where
  "digit_value c = of_char c - 48"

definition hex_value :: "char \<Rightarrow> nat option" where
  "hex_value c =
     (if is_digit c then Some (of_char c - 48)
      else if 97 \<le> (of_char c :: nat) \<and> (of_char c :: nat) \<le> 102 then Some (of_char c - 87)
      else if 65 \<le> (of_char c :: nat) \<and> (of_char c :: nat) \<le> 70 then Some (of_char c - 55)
      else None)"

text \<open>The escape after a backslash, other than \<^verbatim>\<open>\u\<close>.\<close>

definition simple_escape :: "char \<Rightarrow> char option" where
  "simple_escape c =
     (if c = CHR 0x22 then Some (CHR 0x22)
      else if c = CHR 0x5C then Some (CHR 0x5C)
      else if c = CHR ''/'' then Some (CHR ''/'')
      else if c = CHR ''b'' then Some (CHR 0x08)
      else if c = CHR ''f'' then Some (CHR 0x0C)
      else if c = CHR ''n'' then Some (CHR 0x0A)
      else if c = CHR ''r'' then Some (CHR 0x0D)
      else if c = CHR ''t'' then Some (CHR 0x09)
      else None)"

definition unicode_escape :: "char \<Rightarrow> char \<Rightarrow> char \<Rightarrow> char \<Rightarrow> parse_error + char" where
  "unicode_escape a b c d =
     (case (hex_value a, hex_value b, hex_value c, hex_value d) of
        (Some w, Some x, Some y, Some z) \<Rightarrow>
          (if w = 0 \<and> x = 0 then Inr (char_of (16 * y + z)) else Inl OutsideModel)
      | _ \<Rightarrow> Inl SyntaxError)"

text \<open>The characters of a string after its opening quote, up to the closing one; \<open>acc\<close>
  holds the characters read, last first.\<close>

fun parse_string_body :: "string \<Rightarrow> string \<Rightarrow> parse_error + (string \<times> string)" where
  "parse_string_body [] acc = Inl SyntaxError"
| "parse_string_body (c # cs) acc =
     (if c = CHR 0x22 then Inr (rev acc, cs)
      else if c = CHR 0x5C then
        (case cs of
           [] \<Rightarrow> Inl SyntaxError
         | e # cs' \<Rightarrow>
             if e = CHR ''u'' then
               (case cs' of
                  a # b # c' # d # cs'' \<Rightarrow>
                    (case unicode_escape a b c' d of
                       Inl err \<Rightarrow> Inl err
                     | Inr u \<Rightarrow> parse_string_body cs'' (u # acc))
                | _ \<Rightarrow> Inl SyntaxError)
             else
               (case simple_escape e of
                  None \<Rightarrow> Inl SyntaxError
                | Some u \<Rightarrow> parse_string_body cs' (u # acc)))
      else if (of_char c :: nat) < 32 then Inl SyntaxError
      else parse_string_body cs (c # acc))"

definition digits_value :: "string \<Rightarrow> nat" where
  "digits_value ds = foldl (\<lambda>a c. 10 * a + digit_value c) 0 ds"

text \<open>A number: \<^verbatim>\<open>-? (0 | [1-9][0-9]*) (. [0-9]+)? ([eE] [+-]? [0-9]+)?\<close>. The digits of the
  integer part and of the fraction make the mantissa; the exponent is lowered by the length
  of the fraction.\<close>

definition parse_exponent :: "string \<Rightarrow> parse_error + (int \<times> string)" where
  "parse_exponent s =
     (case s of
        [] \<Rightarrow> Inr (0, s)
      | c # cs \<Rightarrow>
          if c = CHR ''e'' \<or> c = CHR ''E'' then
            (let (neg, cs1) =
                   (case cs of
                      [] \<Rightarrow> (False, cs)
                    | g # cs' \<Rightarrow>
                        if g = CHR ''-'' then (True, cs')
                        else if g = CHR ''+'' then (False, cs') else (False, cs));
                 ds = takeWhile is_digit cs1
             in if ds = [] then Inl SyntaxError
                else Inr ((if neg then - int (digits_value ds) else int (digits_value ds)),
                          dropWhile is_digit cs1))
          else Inr (0, s))"

definition parse_fraction :: "string \<Rightarrow> parse_error + (string \<times> string)" where
  "parse_fraction s =
     (case s of
        [] \<Rightarrow> Inr ([], s)
      | c # cs \<Rightarrow>
          if c = CHR ''.'' then
            (let ds = takeWhile is_digit cs
             in if ds = [] then Inl SyntaxError else Inr (ds, dropWhile is_digit cs))
          else Inr ([], s))"

definition parse_number :: "string \<Rightarrow> parse_error + (jsval \<times> string)" where
  "parse_number s =
     (let (neg, s1) = (case s of [] \<Rightarrow> (False, s)
                       | c # cs \<Rightarrow> if c = CHR ''-'' then (True, cs) else (False, s));
          ds = takeWhile is_digit s1;
          s2 = dropWhile is_digit s1
      in if ds = [] \<or> (length ds > 1 \<and> hd ds = CHR ''0'') then Inl SyntaxError
         else (case parse_fraction s2 of
                 Inl err \<Rightarrow> Inl err
               | Inr (fs, s3) \<Rightarrow>
                   (case parse_exponent s3 of
                      Inl err \<Rightarrow> Inl err
                    | Inr (ex, s4) \<Rightarrow>
                        (let m = int (digits_value (ds @ fs))
                         in Inr (JNum (if neg then - m else m) (ex - int (length fs)), s4)))))"

definition parse_literal :: "string \<Rightarrow> jsval \<Rightarrow> string \<Rightarrow> parse_error + (jsval \<times> string)" where
  "parse_literal w v s =
     (if take (length w) s = w then Inr (v, drop (length w) s) else Inl SyntaxError)"

fun parse_value :: "nat \<Rightarrow> string \<Rightarrow> parse_error + (jsval \<times> string)"
  and parse_elements :: "nat \<Rightarrow> jsval list \<Rightarrow> string \<Rightarrow> parse_error + (jsval list \<times> string)"
  and parse_members ::
    "nat \<Rightarrow> (string \<times> jsval) list \<Rightarrow> string \<Rightarrow> parse_error + ((string \<times> jsval) list \<times> string)"
where
  "parse_value 0 s = Inl OutOfFuel"
| "parse_value (Suc n) s =
     (case skip_ws s of
        [] \<Rightarrow> Inl SyntaxError
      | c # cs \<Rightarrow>
          if c = CHR 0x7B then
            (case skip_ws cs of
               [] \<Rightarrow> Inl SyntaxError
             | d # ds \<Rightarrow>
                 if d = CHR 0x7D then Inr (JObj [], ds)
                 else (case parse_members n [] (d # ds) of
                         Inl err \<Rightarrow> Inl err
                       | Inr (kvs, r) \<Rightarrow> Inr (JObj kvs, r)))
          else if c = CHR 0x5B then
            (case skip_ws cs of
               [] \<Rightarrow> Inl SyntaxError
             | d # ds \<Rightarrow>
                 if d = CHR 0x5D then Inr (JArr [], ds)
                 else (case parse_elements n [] (d # ds) of
                         Inl err \<Rightarrow> Inl err
                       | Inr (vs, r) \<Rightarrow> Inr (JArr vs, r)))
          else if c = CHR 0x22 then
            (case parse_string_body cs [] of
               Inl err \<Rightarrow> Inl err
             | Inr (str, r) \<Rightarrow> Inr (JStr str, r))
          else if c = CHR ''t'' then parse_literal ''true'' (JBool True) (c # cs)
          else if c = CHR ''f'' then parse_literal ''false'' (JBool False) (c # cs)
          else if c = CHR ''n'' then parse_literal ''null'' JNull (c # cs)
          else parse_number (c # cs))"
| "parse_elements 0 acc s = Inl OutOfFuel"
| "parse_elements (Suc n) acc s =
     (case parse_value n s of
        Inl err \<Rightarrow> Inl err
      | Inr (v, r) \<Rightarrow>
          (case skip_ws r of
             [] \<Rightarrow> Inl SyntaxError
           | c # cs \<Rightarrow>
               if c = CHR 0x5D then Inr (acc @ [v], cs)
               else if c = CHR '','' then parse_elements n (acc @ [v]) cs
               else Inl SyntaxError))"
| "parse_members 0 acc s = Inl OutOfFuel"
| "parse_members (Suc n) acc s =
     (case skip_ws s of
        [] \<Rightarrow> Inl SyntaxError
      | q # qs \<Rightarrow>
          if q \<noteq> CHR 0x22 then Inl SyntaxError
          else (case parse_string_body qs [] of
                  Inl err \<Rightarrow> Inl err
                | Inr (k, r) \<Rightarrow>
                    (case skip_ws r of
                       [] \<Rightarrow> Inl SyntaxError
                     | c # cs \<Rightarrow>
                         if c \<noteq> CHR '':'' then Inl SyntaxError
                         else (case parse_value n cs of
                                 Inl err \<Rightarrow> Inl err
                               | Inr (v, r') \<Rightarrow>
                                   (case skip_ws r' of
                                      [] \<Rightarrow> Inl SyntaxError
                                    | e # es \<Rightarrow>
                                        if e = CHR 0x7D then Inr (acc @ [(k, v)], es)
                                        else if e = CHR '','' then parse_members n (acc @ [(k, v)]) es
                                        else Inl SyntaxError)))))"

definition JSON_parse_result :: "string \<Rightarrow> parse_error + jsval" where
  "JSON_parse_result s =
     (case parse_value (Suc (length s)) s of
        Inl err \<Rightarrow> Inl err
      | Inr (v, r) \<Rightarrow> if skip_ws r = [] then Inr v else Inl SyntaxError)"

text \<open>The parser given to the listener in the runs that are evaluated below; \<open>None\<close> is a
  throw. A text with an escape above 255, or one that exhausts the bound, also gives
  \<open>None\<close>, though \<^verbatim>\<open>JSON.parse\<close> may accept it: of such a text the model says nothing. No
  text of the runs below is of this kind: each is accepted, or refused for its syntax
  (\<open>refused_for_syntax\<close>).\<close>

definition JSON_parse :: parser where
  "JSON_parse s = (case JSON_parse_result s of Inl err \<Rightarrow> None | Inr v \<Rightarrow> Some v)"

section \<open>Notions used in the statements\<close>

text \<open>The identifiers given to the calls so far, in the order of the calls: each call
  writes its request, with its identifier, to the process.\<close>

definition identifiers :: "state \<Rightarrow> string list" where
  "identifiers s = map rid (stdin s)"

text \<open>The events that call \<^verbatim>\<open>sendRequest\<close>, and their number in a run.\<close>

fun is_call :: "event \<Rightarrow> bool" where
  "is_call (SendRequest m p) = True"
| "is_call ListTools = True"
| "is_call (ToolCall ns n p) = True"
| "is_call ev = False"

definition calls :: "event list \<Rightarrow> nat" where
  "calls evs = length (filter is_call evs)"

text \<open>The state without what has been printed.\<close>

definition frame :: "state \<Rightarrow> state" where
  "frame s = s\<lparr>console := []\<rparr>"

text \<open>The part of the state that belongs to the client and its requests: all of it but
  the console and the module's variables (the two references and the signals sent).\<close>

definition client_part ::
  "state \<Rightarrow> nat \<times> (string \<rightharpoonup> nat) \<times> request list \<times> (nat \<rightharpoonup> timeout) \<times>
     (nat \<rightharpoonup> outcome) \<times> nat \<times> effect list" where
  "client_part s =
     (messageId s, messageQueue s, stdin s, timers s, promises s, nextHandle s, effects s)"

text \<open>A line that does not start with \<^verbatim>\<open>{\<close> or that \<^verbatim>\<open>JSON.parse\<close> refuses.\<close>

definition malformed :: "parser \<Rightarrow> string \<Rightarrow> bool" where
  "malformed parse l = (\<not> startsWith_brace l \<or> parse l = None)"

text \<open>The envelopes the listener has parsed, as it printed them.\<close>

fun envelopes :: "console_entry list \<Rightarrow> jsval list" where
  "envelopes [] = []"
| "envelopes (ParsedResponse v # es) = v # envelopes es"
| "envelopes (e # es) = envelopes es"

text \<open>The envelopes of one chunk taken alone: of the lines of the trimmed chunk, those that
  start with \<^verbatim>\<open>{\<close> and parse.\<close>

definition line_envelope :: "parser \<Rightarrow> string \<Rightarrow> jsval option" where
  "line_envelope parse l = (if startsWith_brace l then parse l else None)"

definition chunk_envelopes :: "parser \<Rightarrow> string \<Rightarrow> jsval list" where
  "chunk_envelopes parse c = List.map_filter (line_envelope parse) (split_newline (trim c))"

text \<open>What a response settles its request with.\<close>

definition settled :: "jsval \<Rightarrow> outcome" where
  "settled response =
     (if truthy (prop_of response ''error'')
      then Rejected (JsError (prop_of (prop_of response ''error'') ''message''))
      else Resolved (prop_of response ''result''))"

text \<open>
  The invariant of the client: the counter follows the number of calls up to \<open>2^53\<close>; the
  \<open>k\<close>-th request written carries the identifier of the \<open>k\<close>-th call; an armed timer
  belongs to a call whose promise is pending and, for a call below \<open>2^53\<close>, whose entry is
  in \<open>messageQueue\<close> under its identifier; an entry of \<open>messageQueue\<close> belongs to a call
  whose timer is armed; a pending promise of a call below \<open>2^53\<close> has its timer armed.
\<close>

definition client_inv :: "state \<Rightarrow> bool" where
  "client_inv s \<longleftrightarrow>
     messageId s = min (nextHandle s) max_safe \<and>
     length (stdin s) = nextHandle s \<and>
     (\<forall>k < nextHandle s. rid (stdin s ! k) = js_String (min k max_safe)) \<and>
     (\<forall>h t. timers s h = Some t \<longrightarrow>
        h < nextHandle s \<and> captured_id t = js_String (min h max_safe) \<and> delay_ms t = 10000 \<and>
        captured_method t = rmethod (stdin s ! h) \<and> promises s h = Some Pending \<and>
        (h < max_safe \<longrightarrow> messageQueue s (captured_id t) = Some h)) \<and>
     (\<forall>k h. messageQueue s k = Some h \<longrightarrow> k = js_String (min h max_safe) \<and> timers s h \<noteq> None) \<and>
     (\<forall>h < nextHandle s. promises s h \<noteq> None \<and>
        (h < max_safe \<and> promises s h = Some Pending \<longrightarrow> timers s h \<noteq> None))"

section \<open>The texts refused in the evaluated runs\<close>

lemma JSON_parse_None: "JSON_parse s = None \<longleftrightarrow> (\<exists>e. JSON_parse_result s = Inl e)"
  by (cases "JSON_parse_result s") (simp_all add: JSON_parse_def)

lemma refused_for_syntax:
  \<open>JSON_parse_result ''{"id":"1","result":{"results":['' = Inl SyntaxError\<close>
  \<open>JSON_parse_result ''{"title":"Roadmap"}]}}'' = Inl SyntaxError\<close>
  \<open>JSON_parse_result ''{"id":"1","result":'' = Inl SyntaxError\<close>
  \<open>JSON_parse_result ''{"id":"1"'' = Inl SyntaxError\<close>
  by code_simp+

section \<open>Decimal identifiers\<close>

lemma digit_value_digit_char: "d < 10 \<Longrightarrow> digit_value (digit_char d) = d"
proof -
  assume "d < 10"
  then have "d \<in> {0, 1, 2, 3, 4, 5, 6, 7, 8, 9}" by auto
  then show ?thesis by (auto simp: digit_value_def digit_char_def)
qed

lemma digits_value_snoc: "digits_value (ds @ [c]) = 10 * digits_value ds + digit_value c"
  by (simp add: digits_value_def)

lemma digits_value_js_String: "digits_value (js_String n) = n"
proof (induction n rule: js_String.induct)
  case (1 n)
  show ?case
  proof (cases "n < 10")
    case True
    then show ?thesis
      by (subst js_String.simps) (simp add: digits_value_def digit_value_digit_char)
  next
    case False
    then have "digits_value (js_String n) = 10 * digits_value (js_String (n div 10)) + n mod 10"
      by (subst js_String.simps) (simp add: digits_value_snoc digit_value_digit_char)
    with False 1 show ?thesis by simp
  qed
qed

lemma js_String_inj: "js_String a = js_String b \<Longrightarrow> a = b"
  by (metis digits_value_js_String)

lemma js_String_nonempty: "js_String n \<noteq> []"
  by (subst js_String.simps) simp

section \<open>The operations, unfolded\<close>

lemmas ops =
  console_print_def promise_resolve_def promise_reject_def clearTimeout_def setTimeout_def
  entry_resolve_def entry_reject_def messageQueue_get_def messageQueue_delete_def
  messageQueue_set_def stdin_write_def register_pending_def new_Promise_def

lemma sendRequest_eq:
  "sendRequest m p s =
     (nextHandle s,
      s\<lparr>messageId := js_increment (messageId s),
        console := console s @ [SendingRequest (make_request (js_String (messageId s)) m p)],
        promises := (promises s)(nextHandle s \<mapsto> Pending),
        nextHandle := nextHandle s + 1,
        timers := (timers s)(nextHandle s \<mapsto>
          \<lparr>captured_id = js_String (messageId s), captured_method = m, delay_ms = 10000\<rparr>),
        messageQueue := (messageQueue s)(js_String (messageId s) \<mapsto> nextHandle s),
        stdin := stdin s @ [make_request (js_String (messageId s)) m p],
        effects := effects s @
          [TimerArmed (nextHandle s)
             \<lparr>captured_id = js_String (messageId s), captured_method = m, delay_ms = 10000\<rparr>,
           EntryStored (js_String (messageId s)) (nextHandle s),
           LineWritten (make_request (js_String (messageId s)) m p)]\<rparr>)"
  by (simp add: sendRequest_def ops Let_def)

lemma handle_message_cases:
  "(\<exists>c. handle_message parse l s = s\<lparr>console := c\<rparr>) \<or>
   (\<exists>r i h. l \<noteq> [] \<and> startsWith_brace l \<and> parse l = Some r \<and>
      get_property r ''id'' = Some (JStr i) \<and> i \<noteq> [] \<and> messageQueue s i = Some h \<and>
      handle_message parse l s =
        messageQueue_delete (JStr i) (settle_pending h r (console_print (ParsedResponse r) s)))"
proof -
  have c0: "\<exists>c. s = s\<lparr>console := c\<rparr>"
    by (rule exI[of _ "console s"]) simp
  have c1: "\<And>e. \<exists>c. console_print e s = s\<lparr>console := c\<rparr>"
    by (auto simp: console_print_def)
  have c2: "\<And>e e'. \<exists>c. console_print e (console_print e' s) = s\<lparr>console := c\<rparr>"
    by (auto simp: console_print_def)
  show ?thesis
  proof (cases "l = []")
    case True
    then show ?thesis using c0 by (simp add: handle_message_def)
  next
    case ne: False
    show ?thesis
    proof (cases "startsWith_brace l")
      case False
      with ne show ?thesis using c1 by (simp add: handle_message_def)
    next
      case sb: True
      show ?thesis
      proof (cases "parse l")
        case None
        with ne sb show ?thesis using c1 by (simp add: handle_message_def)
      next
        case (Some r)
        note r = ne sb Some
        show ?thesis
        proof (cases "get_property r ''id''")
          case None
          with r show ?thesis using c2 by (simp add: handle_message_def)
        next
          case v: (Some v)
          show ?thesis
          proof (cases "truthy v")
            case False
            with r v show ?thesis using c2 by (simp add: handle_message_def)
          next
            case tv: True
            show ?thesis
            proof (cases "messageQueue_get v (console_print (ParsedResponse r) s)")
              case None
              with r v tv show ?thesis using c2 by (simp add: handle_message_def)
            next
              case h: (Some h)
              then obtain i where i: "v = JStr i" "messageQueue s i = Some h"
                by (cases v) (auto simp: messageQueue_get_def console_print_def)
              with tv have "i \<noteq> []" by auto
              with r v h i tv show ?thesis
                by (simp add: handle_message_def)
            qed
          qed
        qed
      qed
    qed
  qed
qed

lemma run_Nil [simp]: "run parse s [] = s" by (simp add: run_def)

lemma run_Cons [simp]: "run parse s (ev # evs) = run parse (step parse s ev) evs" by (simp add: run_def)

lemma run_append: "run parse s (xs @ ys) = run parse (run parse s xs) ys" by (simp add: run_def)

lemma run_snoc: "run parse s (xs @ [ev]) = step parse (run parse s xs) ev" by (simp add: run_def)

lemma calls_simps [simp]: "calls [] = 0" "calls (xs @ ys) = calls xs + calls ys"
  "calls (ev # evs) = (if is_call ev then 1 else 0) + calls evs"
  by (simp_all add: calls_def)

lemma nextHandle_handle_message [simp]: "nextHandle (handle_message parse l s) = nextHandle s"
  using handle_message_cases[of parse l s]
  by (auto simp: settle_pending_def ops split: if_splits)

lemma nextHandle_foldl_handle [simp]:
  "nextHandle (foldl (\<lambda>s' message. handle_message parse message s') s ls) = nextHandle s"
  by (induction ls arbitrary: s) simp_all

lemma nextHandle_step:
  "nextHandle (step parse s ev) = nextHandle s + (if is_call ev then 1 else 0)"
  by (cases ev)
    (simp_all add: sendRequest_eq listTools_def getTool_call_def getServerInfo_def on_data_def
      console_print_def fire_timeout_def timeout_callback_def promise_reject_def
      shutdownNotionMCPServer_def on_exit_def on_stderr_def Let_def split: option.splits)

lemma nextHandle_run: "nextHandle (run parse s evs) = nextHandle s + calls evs"
  by (induction evs arbitrary: s) (simp_all add: nextHandle_step)

lemma nextHandle_reachable: "nextHandle (run parse new_StdioClient evs) = calls evs"
  by (simp add: nextHandle_run new_StdioClient_def)

section \<open>The invariant holds in every run\<close>

lemma inv_new: "client_inv new_StdioClient"
  by (simp add: client_inv_def new_StdioClient_def)

lemma inv_cong:
  "messageId s = messageId s' \<Longrightarrow> nextHandle s = nextHandle s' \<Longrightarrow> stdin s = stdin s' \<Longrightarrow>
   timers s = timers s' \<Longrightarrow> promises s = promises s' \<Longrightarrow> messageQueue s = messageQueue s' \<Longrightarrow>
   client_inv s = client_inv s'"
  by (simp add: client_inv_def)

lemma inv_console [simp]: "client_inv (s\<lparr>console := c\<rparr>) = client_inv s"
  by (rule inv_cong) simp_all

lemma js_increment_min: "js_increment (min n max_safe) = min (Suc n) max_safe"
  by (simp add: js_increment_def min_def)

lemma client_invI:
  assumes "messageId s = min (nextHandle s) max_safe"
    and "length (stdin s) = nextHandle s"
    and "\<And>k. k < nextHandle s \<Longrightarrow> rid (stdin s ! k) = js_String (min k max_safe)"
    and "\<And>h t. timers s h = Some t \<Longrightarrow>
        h < nextHandle s \<and> captured_id t = js_String (min h max_safe) \<and> delay_ms t = 10000 \<and>
        captured_method t = rmethod (stdin s ! h) \<and> promises s h = Some Pending \<and>
        (h < max_safe \<longrightarrow> messageQueue s (captured_id t) = Some h)"
    and "\<And>k h. messageQueue s k = Some h \<Longrightarrow>
        k = js_String (min h max_safe) \<and> timers s h \<noteq> None"
    and "\<And>h. h < nextHandle s \<Longrightarrow> promises s h \<noteq> None \<and>
        (h < max_safe \<and> promises s h = Some Pending \<longrightarrow> timers s h \<noteq> None)"
  shows "client_inv s"
  unfolding client_inv_def using assms by blast

lemma client_invD:
  assumes "client_inv s"
  shows "messageId s = min (nextHandle s) max_safe"
    and "length (stdin s) = nextHandle s"
    and "\<And>k. k < nextHandle s \<Longrightarrow> rid (stdin s ! k) = js_String (min k max_safe)"
    and "\<And>h t. timers s h = Some t \<Longrightarrow>
        h < nextHandle s \<and> captured_id t = js_String (min h max_safe) \<and> delay_ms t = 10000 \<and>
        captured_method t = rmethod (stdin s ! h) \<and> promises s h = Some Pending \<and>
        (h < max_safe \<longrightarrow> messageQueue s (captured_id t) = Some h)"
    and "\<And>k h. messageQueue s k = Some h \<Longrightarrow>
        k = js_String (min h max_safe) \<and> timers s h \<noteq> None"
    and "\<And>h. h < nextHandle s \<Longrightarrow> promises s h \<noteq> None \<and>
        (h < max_safe \<and> promises s h = Some Pending \<longrightarrow> timers s h \<noteq> None)"
  using assms unfolding client_inv_def by blast+

lemma js_String_min_fresh:
  "h < n \<Longrightarrow> h < max_safe \<Longrightarrow> js_String (min h max_safe) \<noteq> js_String (min n max_safe)"
  by (auto dest!: js_String_inj simp: min_def split: if_splits)

lemma inv_sendRequest:
  assumes "client_inv s"
  shows "client_inv (snd (sendRequest m p s))"
proof -
  let ?n = "nextHandle s"
  note a = client_invD[OF assms]
  define s' where "s' = snd (sendRequest m p s)"
  define T where "T = \<lparr>captured_id = js_String (messageId s), captured_method = m, delay_ms = 10000\<rparr>"
  have f: "messageId s' = min (Suc ?n) max_safe" "nextHandle s' = Suc ?n"
    "stdin s' = stdin s @ [make_request (js_String (messageId s)) m p]"
    "timers s' = (timers s)(?n \<mapsto> T)"
    "promises s' = (promises s)(?n \<mapsto> Pending)"
    "messageQueue s' = (messageQueue s)(js_String (messageId s) \<mapsto> ?n)"
    by (simp_all add: s'_def T_def sendRequest_eq a(1) js_increment_min)
  have "client_inv s'"
  proof (rule client_invI)
    show "messageId s' = min (nextHandle s') max_safe" by (simp add: f)
    show "length (stdin s') = nextHandle s'" by (simp add: f a(2))
  next
    fix k assume "k < nextHandle s'"
    then show "rid (stdin s' ! k) = js_String (min k max_safe)"
      using a(3)[of k] by (auto simp: f a(1) a(2) nth_append make_request_def less_Suc_eq)
  next
    fix h t assume ht: "timers s' h = Some t"
    show "h < nextHandle s' \<and> captured_id t = js_String (min h max_safe) \<and> delay_ms t = 10000 \<and>
        captured_method t = rmethod (stdin s' ! h) \<and> promises s' h = Some Pending \<and>
        (h < max_safe \<longrightarrow> messageQueue s' (captured_id t) = Some h)"
    proof (cases "h = ?n")
      case True
      with ht have "t = T" by (simp add: f)
      with True show ?thesis
        by (simp add: f T_def a(1) a(2) nth_append make_request_def)
    next
      case False
      with ht have old: "timers s h = Some t" by (simp add: f)
      note o = a(4)[OF old]
      from o have "h < ?n" by simp
      with o js_String_min_fresh[of h ?n] False show ?thesis
        by (auto simp: f a(1) a(2) nth_append)
    qed
  next
    fix k h assume kh: "messageQueue s' k = Some h"
    show "k = js_String (min h max_safe) \<and> timers s' h \<noteq> None"
    proof (cases "k = js_String (messageId s)")
      case True
      with kh show ?thesis by (auto simp: f a(1))
    next
      case False
      with kh have "messageQueue s k = Some h" by (simp add: f)
      from a(5)[OF this] show ?thesis by (auto simp: f)
    qed
  next
    fix h assume "h < nextHandle s'"
    then show "promises s' h \<noteq> None \<and>
        (h < max_safe \<and> promises s' h = Some Pending \<longrightarrow> timers s' h \<noteq> None)"
      using a(6)[of h] by (auto simp: f less_Suc_eq)
  qed
  then show ?thesis by (simp add: s'_def)
qed

lemma js_String_min_eq:
  "js_String (min a max_safe) = js_String (min b max_safe) \<Longrightarrow> a < max_safe \<Longrightarrow> a = b"
  by (auto dest!: js_String_inj simp: min_def split: if_splits)

lemma inv_remove:
  assumes "client_inv s" and t: "timers s h = Some t" and X: "X \<noteq> Pending"
  shows "client_inv (s\<lparr>timers := (timers s)(h := None), promises := (promises s)(h \<mapsto> X),
           messageQueue := (messageQueue s)(captured_id t := None)\<rparr>)"
    (is "client_inv ?s'")
proof (rule client_invI)
  note a = client_invD[OF assms(1)]
  note th = a(4)[OF t]
  show "messageId ?s' = min (nextHandle ?s') max_safe" using a(1) by simp
  show "length (stdin ?s') = nextHandle ?s'" using a(2) by simp
  show "rid (stdin ?s' ! k) = js_String (min k max_safe)" if "k < nextHandle ?s'" for k
    using that a(3)[of k] by simp
  show "h' < nextHandle ?s' \<and> captured_id t' = js_String (min h' max_safe) \<and> delay_ms t' = 10000 \<and>
        captured_method t' = rmethod (stdin ?s' ! h') \<and> promises ?s' h' = Some Pending \<and>
        (h' < max_safe \<longrightarrow> messageQueue ?s' (captured_id t') = Some h')"
    if "timers ?s' h' = Some t'" for h' t'
  proof -
    from that have ne: "h' \<noteq> h" and old: "timers s h' = Some t'"
      by (auto split: if_splits)
    note o = a(4)[OF old]
    have "captured_id t' \<noteq> captured_id t" if "h' < max_safe"
      using o th that ne js_String_min_eq[of h' h] by auto
    with o ne show ?thesis by auto
  qed
  show "k = js_String (min h' max_safe) \<and> timers ?s' h' \<noteq> None"
    if "messageQueue ?s' k = Some h'" for k h'
  proof -
    from that have k: "k \<noteq> captured_id t" and old: "messageQueue s k = Some h'"
      by (auto split: if_splits)
    from a(5)[OF old] th k show ?thesis by auto
  qed
  show "promises ?s' h' \<noteq> None \<and>
        (h' < max_safe \<and> promises ?s' h' = Some Pending \<longrightarrow> timers ?s' h' \<noteq> None)"
    if "h' < nextHandle ?s'" for h'
    using that a(6)[of h'] X by auto
qed

lemma inv_expire:
  assumes "client_inv s" and t: "timers s h = Some t"
    and none: "messageQueue s (captured_id t) = None"
  shows "client_inv (s\<lparr>timers := (timers s)(h := None)\<rparr>)" (is "client_inv ?s'")
proof (rule client_invI)
  note a = client_invD[OF assms(1)]
  note th = a(4)[OF t]
  from th none have big: "\<not> h < max_safe" by auto
  show "messageId ?s' = min (nextHandle ?s') max_safe" using a(1) by simp
  show "length (stdin ?s') = nextHandle ?s'" using a(2) by simp
  show "rid (stdin ?s' ! k) = js_String (min k max_safe)" if "k < nextHandle ?s'" for k
    using that a(3)[of k] by simp
  show "h' < nextHandle ?s' \<and> captured_id t' = js_String (min h' max_safe) \<and> delay_ms t' = 10000 \<and>
        captured_method t' = rmethod (stdin ?s' ! h') \<and> promises ?s' h' = Some Pending \<and>
        (h' < max_safe \<longrightarrow> messageQueue ?s' (captured_id t') = Some h')"
    if "timers ?s' h' = Some t'" for h' t'
  proof -
    from that have old: "timers s h' = Some t'" by (auto split: if_splits)
    from a(4)[OF old] show ?thesis by auto
  qed
  show "k = js_String (min h' max_safe) \<and> timers ?s' h' \<noteq> None"
    if "messageQueue ?s' k = Some h'" for k h'
  proof -
    from that have old: "messageQueue s k = Some h'" by simp
    from a(5)[OF old] th none old show ?thesis by auto
  qed
  show "promises ?s' h' \<noteq> None \<and>
        (h' < max_safe \<and> promises ?s' h' = Some Pending \<longrightarrow> timers ?s' h' \<noteq> None)"
    if "h' < nextHandle ?s'" for h'
    using that a(6)[of h'] big by auto
qed

lemma fire_timeout_eq:
  assumes "client_inv s" and t: "timers s h = Some t"
  shows "fire_timeout h s =
     (if messageQueue s (captured_id t) \<noteq> None
      then s\<lparr>timers := (timers s)(h := None),
             promises := (promises s)(h \<mapsto> Rejected (timeout_error (captured_method t))),
             messageQueue := (messageQueue s)(captured_id t := None)\<rparr>
      else s\<lparr>timers := (timers s)(h := None)\<rparr>)"
  using client_invD(4)[OF assms] t
  by (simp add: fire_timeout_def timeout_callback_def promise_reject_def)

lemma inv_fire_timeout:
  assumes "client_inv s"
  shows "client_inv (fire_timeout h s)"
proof (cases "timers s h")
  case None
  with assms show ?thesis by (simp add: fire_timeout_def)
next
  case (Some t)
  show ?thesis
    unfolding fire_timeout_eq[OF assms Some]
    using inv_remove[OF assms Some, of "Rejected (timeout_error (captured_method t))"]
      inv_expire[OF assms Some]
    by auto
qed

lemma dispatch_eq:
  assumes "client_inv s" and q: "messageQueue s i = Some h"
  shows "\<exists>c. messageQueue_delete (JStr i) (settle_pending h r (console_print e s)) =
     s\<lparr>console := c, timers := (timers s)(h := None),
       promises := (promises s)(h \<mapsto> settled r),
       messageQueue := (messageQueue s)(i := None)\<rparr>"
proof -
  note a = client_invD[OF assms(1)]
  from a(5)[OF q] obtain t where t: "timers s h = Some t" by auto
  from a(4)[OF t] have "promises s h = Some Pending" by simp
  then show ?thesis
    by (auto simp: settle_pending_def settled_def ops)
qed

lemma inv_handle_message:
  assumes "client_inv s"
  shows "client_inv (handle_message parse l s)"
proof -
  note a = client_invD[OF assms(1)]
  from handle_message_cases[of parse l s] show ?thesis
  proof (elim disjE exE conjE)
    fix c assume "handle_message parse l s = s\<lparr>console := c\<rparr>"
    with assms show ?thesis by simp
  next
    fix r i h
    assume q: "messageQueue s i = Some h"
      and eq: "handle_message parse l s =
        messageQueue_delete (JStr i) (settle_pending h r (console_print (ParsedResponse r) s))"
    from a(5)[OF q] obtain t where t: "timers s h = Some t" and i: "i = js_String (min h max_safe)"
      by auto
    from a(4)[OF t] i have ci: "captured_id t = i" by simp
    have X: "settled r \<noteq> Pending" by (simp add: settled_def)
    from dispatch_eq[OF assms q, of r "ParsedResponse r"] obtain c where
      "handle_message parse l s = s\<lparr>console := c, timers := (timers s)(h := None),
         promises := (promises s)(h \<mapsto> settled r),
         messageQueue := (messageQueue s)(i := None)\<rparr>"
      unfolding eq by blast
    moreover have "client_inv (s\<lparr>console := c, timers := (timers s)(h := None),
         promises := (promises s)(h \<mapsto> settled r),
         messageQueue := (messageQueue s)(i := None)\<rparr>) =
       client_inv (s\<lparr>timers := (timers s)(h := None),
         promises := (promises s)(h \<mapsto> settled r),
         messageQueue := (messageQueue s)(captured_id t := None)\<rparr>)"
      by (rule inv_cong) (simp_all add: ci)
    ultimately show ?thesis using inv_remove[OF assms t X] by simp
  qed
qed

lemma inv_foldl_handle:
  "client_inv s \<Longrightarrow> client_inv (foldl (\<lambda>s' message. handle_message parse message s') s ls)"
  by (induction ls arbitrary: s) (simp_all add: inv_handle_message)

lemma inv_on_data: "client_inv s \<Longrightarrow> client_inv (on_data parse rawData s)"
  unfolding on_data_def by (rule inv_foldl_handle) (simp add: console_print_def)

lemma inv_shutdown: "client_inv (shutdownNotionMCPServer reason s) = client_inv s"
  by (rule inv_cong) (simp_all add: shutdownNotionMCPServer_def console_print_def Let_def)

lemma inv_on_exit: "client_inv (on_exit code signal s) = client_inv s"
  by (rule inv_cong) (simp_all add: on_exit_def console_print_def)

lemma inv_on_stderr: "client_inv (on_stderr d s) = client_inv s"
  by (rule inv_cong) (simp_all add: on_stderr_def console_print_def)

lemma inv_step: "client_inv s \<Longrightarrow> client_inv (step parse s ev)"
  by (cases ev)
    (simp_all add: inv_sendRequest listTools_def getTool_call_def getServerInfo_def
      inv_on_data inv_fire_timeout inv_shutdown inv_on_exit inv_on_stderr)

lemma inv_run: "client_inv s \<Longrightarrow> client_inv (run parse s evs)"
  unfolding run_def by (induction evs arbitrary: s) (simp_all add: inv_step)

lemma inv_reachable: "client_inv (run parse new_StdioClient evs)"
  by (rule inv_run[OF inv_new])

section \<open>The identifiers of a run\<close>

lemma identifiers_reachable:
  "identifiers (run parse new_StdioClient evs) =
     map (\<lambda>k. js_String (min k max_safe)) [0..<calls evs]"
proof -
  let ?s = "run parse new_StdioClient evs"
  note a = client_invD[OF inv_reachable[of parse evs]]
  have n: "nextHandle ?s = calls evs" by (rule nextHandle_reachable)
  show ?thesis
    unfolding identifiers_def
  proof (rule nth_equalityI)
    show "length (map rid (stdin ?s)) = length (map (\<lambda>k. js_String (min k max_safe)) [0..<calls evs])"
      using a(2) n by simp
    fix i assume "i < length (map rid (stdin ?s))"
    then have "i < nextHandle ?s" using a(2) by simp
    then show "map rid (stdin ?s) ! i = map (\<lambda>k. js_String (min k max_safe)) [0..<calls evs] ! i"
      using a(2) a(3)[of i] n by simp
  qed
qed

lemma min_max_safe_sorted: "sorted (map (\<lambda>k. min k max_safe) [0..<n])"
proof -
  have "sorted_wrt (\<lambda>a b. min a max_safe \<le> min b max_safe) [0..<n]"
    by (rule sorted_wrt_mono_rel[of _ "(<)"]) (auto simp: min_def)
  then show ?thesis by (simp add: sorted_map)
qed

lemma identifiers_bounded:
  assumes b: "calls evs \<le> max_safe + 1"
  shows "identifiers (run parse new_StdioClient evs) = map js_String [0..<calls evs]"
proof -
  have "map (\<lambda>k. js_String (min k max_safe)) [0..<calls evs] = map js_String [0..<calls evs]"
    by (rule map_cong) (use b in auto)
  then show ?thesis using identifiers_reachable[of parse evs] by simp
qed

section \<open>A call and the event right after it\<close>

lemma sendRequest_then_timeout:
  "promises (fire_timeout (fst (sendRequest m p s)) (snd (sendRequest m p s)))
     (fst (sendRequest m p s)) = Some (Rejected (timeout_error m))"
  by (simp add: sendRequest_eq fire_timeout_def timeout_callback_def promise_reject_def)

lemma sendRequest_then_response:
  assumes "startsWith_brace l" and "parse l = Some r"
    and "get_property r ''id'' = Some (JStr (js_String (messageId s)))"
  shows "promises (handle_message parse l (snd (sendRequest m p s))) (fst (sendRequest m p s))
     = Some (settled r)"
proof -
  from assms(1) have ne: "l \<noteq> []" by (auto simp: startsWith_brace_def)
  show ?thesis
    using assms ne js_String_nonempty[of "messageId s"]
    by (simp add: handle_message_def sendRequest_eq settle_pending_def settled_def ops Let_def)
qed

section \<open>Responses, and the state without the console\<close>

lemma frame_eq_iff:
  "frame s = frame s' \<longleftrightarrow> (\<exists>c. s' = s\<lparr>console := c\<rparr>)"
proof
  assume "frame s = frame s'"
  then have "s\<lparr>console := console s'\<rparr> = s'"
    unfolding frame_def by (metis state.surjective state.update_convs(7) state.select_convs(7))
  then show "\<exists>c. s' = s\<lparr>console := c\<rparr>" by metis
next
  assume "\<exists>c. s' = s\<lparr>console := c\<rparr>"
  then show "frame s = frame s'" by (auto simp: frame_def)
qed

lemma handle_message_console:
  "frame (handle_message parse l (s\<lparr>console := c\<rparr>)) = frame (handle_message parse l s)"
  by (simp add: handle_message_def settle_pending_def ops frame_def Let_def
      split: option.splits jsval.splits)

lemma handle_message_frame:
  assumes "frame s = frame s'"
  shows "frame (handle_message parse l s) = frame (handle_message parse l s')"
proof -
  from assms obtain c where "s' = s\<lparr>console := c\<rparr>" unfolding frame_eq_iff by blast
  then show ?thesis by (simp add: handle_message_console)
qed

lemma frame_fields:
  "messageId (frame s) = messageId s" "messageQueue (frame s) = messageQueue s"
  "stdin (frame s) = stdin s" "timers (frame s) = timers s" "promises (frame s) = promises s"
  "nextHandle (frame s) = nextHandle s"
  "notionMCPServerProcess (frame s) = notionMCPServerProcess s"
  "notionMCPClient (frame s) = notionMCPClient s" "kill_signals (frame s) = kill_signals s"
  by (simp_all add: frame_def)

lemma inv_frame: "frame s = frame s' \<Longrightarrow> client_inv s = client_inv s'"
  by (auto simp: frame_eq_iff)

lemma no_entry_no_effect:
  assumes "messageQueue s i = None" and "parse l = Some r"
    and "get_property r ''id'' = Some (JStr i)"
  shows "frame (handle_message parse l s) = frame s"
  using assms
  by (simp add: handle_message_def ops frame_def Let_def)

lemma response_settles:
  assumes inv: "client_inv s" and q: "messageQueue s i = Some h"
    and sb: "startsWith_brace l" and p: "parse l = Some r"
    and g: "get_property r ''id'' = Some (JStr i)"
  shows "\<exists>c. handle_message parse l s =
     s\<lparr>console := c, timers := (timers s)(h := None),
       promises := (promises s)(h \<mapsto> settled r),
       messageQueue := (messageQueue s)(i := None)\<rparr>"
proof -
  from sb have ne: "l \<noteq> []" by (auto simp: startsWith_brace_def)
  from client_invD(5)[OF inv q] have "i \<noteq> []" using js_String_nonempty by auto
  with ne sb p g q have "handle_message parse l s =
      messageQueue_delete (JStr i) (settle_pending h r (console_print (ParsedResponse r) s))"
    by (simp add: handle_message_def messageQueue_get_def console_print_def)
  with dispatch_eq[OF inv q, of r "ParsedResponse r"] show ?thesis by simp
qed

lemma on_data_single_line:
  "split_newline (trim c) = [l] \<Longrightarrow>
   on_data parse c s = handle_message parse l (console_print (RawResponse c) s)"
  by (simp add: on_data_def)

lemma frame_console_print [simp]: "frame (console_print e s) = frame s"
  by (simp add: frame_def console_print_def)

section \<open>Lines and chunks\<close>

lemma split_newline_nonempty: "split_newline s \<noteq> []"
  by (induction s) (auto split: list.splits)

lemma split_newline_first:
  "split_newline s = l # ls \<Longrightarrow> \<exists>b. s = l @ b"
proof (induction s arbitrary: l ls)
  case Nil
  then show ?case by simp
next
  case (Cons c cs)
  show ?case
  proof (cases "c = newline")
    case True
    with Cons.prems show ?thesis by simp
  next
    case False
    obtain l0 ls0 where s: "split_newline cs = l0 # ls0"
      using split_newline_nonempty[of cs] by (cases "split_newline cs") auto
    from Cons.IH[OF s] obtain b where "cs = l0 @ b" by blast
    with Cons.prems False s show ?thesis by auto
  qed
qed

lemma split_newline_part:
  "l \<in> set (split_newline s) \<Longrightarrow> \<exists>a b. s = a @ l @ b"
proof (induction s arbitrary: l)
  case Nil
  then show ?case by simp
next
  case (Cons c cs)
  obtain l0 ls0 where s: "split_newline cs = l0 # ls0"
    using split_newline_nonempty[of cs] by (cases "split_newline cs") auto
  show ?case
  proof (cases "c = newline")
    case True
    with Cons.prems have "l = [] \<or> l \<in> set (split_newline cs)" by simp
    then show ?thesis
    proof
      assume "l = []"
      then have "c # cs = [] @ l @ (c # cs)" by simp
      then show ?thesis by blast
    next
      assume "l \<in> set (split_newline cs)"
      from Cons.IH[OF this] obtain a b where "cs = a @ l @ b" by blast
      then have "c # cs = (c # a) @ l @ b" by simp
      then show ?thesis by blast
    qed
  next
    case False
    with Cons.prems s have "l = c # l0 \<or> l \<in> set ls0" by simp
    then show ?thesis
    proof
      assume l: "l = c # l0"
      from split_newline_first[OF s] obtain b where "cs = l0 @ b" by blast
      with l have "c # cs = [] @ l @ b" by simp
      then show ?thesis by blast
    next
      assume "l \<in> set ls0"
      then have "l \<in> set (split_newline cs)" using s by simp
      from Cons.IH[OF this] obtain a b where "cs = a @ l @ b" by blast
      then have "c # cs = (c # a) @ l @ b" by simp
      then show ?thesis by blast
    qed
  qed
qed

lemma trim_part: "\<exists>a b. s = a @ trim s @ b"
proof -
  let ?x = "dropWhile is_space s"
  have 1: "s = takeWhile is_space s @ ?x" by simp
  have "rev (dropWhile is_space (rev ?x)) @ rev (takeWhile is_space (rev ?x)) =
        rev (takeWhile is_space (rev ?x) @ dropWhile is_space (rev ?x))"
    by (simp only: rev_append)
  also have "\<dots> = ?x" by (simp only: takeWhile_dropWhile_id rev_rev_ident)
  finally have 2: "?x = trim s @ rev (takeWhile is_space (rev ?x))"
    by (simp only: trim_def)
  have "s = takeWhile is_space s @ trim s @ rev (takeWhile is_space (rev ?x))"
    using 1 2 by metis
  then show ?thesis by blast
qed

lemma line_part_of_chunk:
  assumes "l \<in> set (split_newline (trim c))"
  shows "\<exists>a b. c = a @ l @ b"
proof -
  from split_newline_part[OF assms] obtain a b where t: "trim c = a @ l @ b" by blast
  from trim_part[of c] obtain a' b' where "c = a' @ trim c @ b'" by blast
  with t have "c = (a' @ a) @ l @ (b @ b')" by simp
  then show ?thesis by blast
qed

lemma envelopes_append: "envelopes (xs @ ys) = envelopes xs @ envelopes ys"
  by (induction xs rule: envelopes.induct) simp_all

lemma malformed_no_effect:
  "malformed parse l \<Longrightarrow> frame (handle_message parse l s) = frame s"
  by (auto simp: malformed_def handle_message_def frame_def console_print_def)

lemma console_handle_message:
  "\<exists>c. console (handle_message parse l s) = console s @ c"
  by (simp add: handle_message_def settle_pending_def ops Let_def
      split: option.splits jsval.splits)

lemma console_foldl_handle:
  "\<exists>c. console (foldl (\<lambda>s' m. handle_message parse m s') s ls) = console s @ c"
proof (induction ls arbitrary: s)
  case Nil
  show ?case by simp
next
  case (Cons l ls)
  from console_handle_message[of parse l s] obtain c where
    c: "console (handle_message parse l s) = console s @ c" by blast
  from Cons[of "handle_message parse l s"] obtain c' where
    "console (foldl (\<lambda>s' m. handle_message parse m s') (handle_message parse l s) ls)
       = console (handle_message parse l s) @ c'" by blast
  with c show ?case by simp
qed

lemma malformed_printed:
  "l \<noteq> [] \<Longrightarrow> \<not> startsWith_brace l \<Longrightarrow> SkippingNonJSON l \<in> set (console (handle_message parse l s))"
  "startsWith_brace l \<Longrightarrow> parse l = None \<Longrightarrow> ErrorParsingJSON l \<in> set (console (handle_message parse l s))"
  by (auto simp: handle_message_def console_print_def startsWith_brace_def)

lemma printed_foldl_handle:
  assumes "l \<in> set ls"
  shows "(l \<noteq> [] \<and> \<not> startsWith_brace l \<longrightarrow>
           SkippingNonJSON l \<in> set (console (foldl (\<lambda>s' m. handle_message parse m s') s ls))) \<and>
         (startsWith_brace l \<and> parse l = None \<longrightarrow>
           ErrorParsingJSON l \<in> set (console (foldl (\<lambda>s' m. handle_message parse m s') s ls)))"
  using assms
proof (induction ls arbitrary: s)
  case Nil
  then show ?case by simp
next
  case (Cons a ls)
  show ?case
  proof (cases "l = a")
    case True
    from console_foldl_handle[of parse "handle_message parse a s" ls] obtain c where
      "console (foldl (\<lambda>s' m. handle_message parse m s') (handle_message parse a s) ls)
         = console (handle_message parse a s) @ c" by blast
    with True malformed_printed[of a parse s] show ?thesis by auto
  next
    case False
    with Cons.prems have "l \<in> set ls" by simp
    from Cons.IH[OF this, of "handle_message parse a s"] show ?thesis by simp
  qed
qed

lemma foldl_handle_filter:
  "frame s = frame s' \<Longrightarrow>
   frame (foldl (\<lambda>s' m. handle_message parse m s') s ls) =
   frame (foldl (\<lambda>s' m. handle_message parse m s') s' (filter (\<lambda>l. \<not> malformed parse l) ls))"
proof (induction ls arbitrary: s s')
  case Nil
  then show ?case by simp
next
  case (Cons l ls)
  show ?case
  proof (cases "malformed parse l")
    case True
    have "frame (handle_message parse l s) = frame s'"
      using malformed_no_effect[OF True, of s] Cons.prems by simp
    from Cons.IH[OF this] True show ?thesis by simp
  next
    case False
    have "frame (handle_message parse l s) = frame (handle_message parse l s')"
      by (rule handle_message_frame[OF Cons.prems])
    from Cons.IH[OF this] False show ?thesis by simp
  qed
qed

lemma envelopes_handle_message:
  "envelopes (console (handle_message parse l s)) =
     envelopes (console s) @ (case line_envelope parse l of None \<Rightarrow> [] | Some v \<Rightarrow> [v])"
  by (simp add: handle_message_def settle_pending_def ops Let_def line_envelope_def
      envelopes_append startsWith_brace_def
      split: option.splits jsval.splits list.splits)

lemma envelopes_foldl_handle:
  "envelopes (console (foldl (\<lambda>s' m. handle_message parse m s') s ls)) =
     envelopes (console s) @ List.map_filter (line_envelope parse) ls"
  by (induction ls arbitrary: s)
    (simp_all add: envelopes_handle_message map_filter_simps split: option.splits)

lemma envelopes_on_data:
  "envelopes (console (on_data parse c s)) = envelopes (console s) @ chunk_envelopes parse c"
  by (simp add: on_data_def envelopes_foldl_handle chunk_envelopes_def console_print_def
      envelopes_append)

lemma envelopes_run_data:
  "envelopes (console (run parse s (map Data chunks))) =
     envelopes (console s) @ concat (map (chunk_envelopes parse) chunks)"
  by (induction chunks arbitrary: s) (simp_all add: envelopes_on_data)

lemma on_data_all_malformed:
  assumes "\<forall>l \<in> set (split_newline (trim c)). malformed parse l"
  shows "frame (on_data parse c s) = frame s"
proof -
  have "filter (\<lambda>l. \<not> malformed parse l) (split_newline (trim c)) = []"
    using assms by (simp add: filter_empty_conv)
  with foldl_handle_filter[of "console_print (RawResponse c) s" s parse "split_newline (trim c)"]
  show ?thesis by (simp add: on_data_def)
qed

lemma chunk_envelopes_single:
  "split_newline (trim c) = [l] \<Longrightarrow>
   chunk_envelopes parse c = (case line_envelope parse l of None \<Rightarrow> [] | Some v \<Rightarrow> [v])"
  by (simp add: chunk_envelopes_def map_filter_simps split: option.splits)

lemma line_envelope_malformed: "malformed parse l \<Longrightarrow> line_envelope parse l = None"
  by (auto simp: malformed_def line_envelope_def)

section \<open>Timers, and the calls from \<open>2^53\<close> on\<close>

lemma pending_call_has_timer:
  assumes inv: "client_inv s" and h: "h < nextHandle s" "h < max_safe"
    and p: "promises s h = Some Pending"
  shows "\<exists>t. timers s h = Some t \<and> delay_ms t = 10000 \<and>
      captured_method t = rmethod (stdin s ! h) \<and> captured_id t = rid (stdin s ! h) \<and>
      messageQueue s (captured_id t) = Some h"
proof -
  note a = client_invD[OF inv]
  from a(6)[OF h(1)] h(2) p obtain t where t: "timers s h = Some t" by auto
  from a(4)[OF t] a(3)[OF h(1)] h(2) t show ?thesis by auto
qed

lemma fire_timeout_removes_id:
  "timers s h = Some t \<Longrightarrow> messageQueue (fire_timeout h s) (captured_id t) = None"
  by (simp add: fire_timeout_def timeout_callback_def promise_reject_def)

lemma calls_timed_out:
  "calls (concat (map (\<lambda>k. [SendRequest m p, TimerFires k]) [0..<n])) = n"
  by (induction n) simp_all

lemma saturated_two_calls:
  fixes parse m p evs
  assumes c: "calls evs = max_safe"
  defines "s \<equiv> run parse new_StdioClient (evs @ [SendRequest m p, SendRequest m p])"
  shows "length (stdin s) = max_safe + 2"
    and "rid (stdin s ! max_safe) = js_String max_safe"
    and "rid (stdin s ! (max_safe + 1)) = js_String max_safe"
    and "timers s max_safe =
           Some \<lparr>captured_id = js_String max_safe, captured_method = m, delay_ms = 10000\<rparr>"
    and "timers s (max_safe + 1) =
           Some \<lparr>captured_id = js_String max_safe, captured_method = m, delay_ms = 10000\<rparr>"
    and "messageQueue s (js_String max_safe) = Some (max_safe + 1)"
    and "promises s max_safe = Some Pending"
    and "promises s (max_safe + 1) = Some Pending"
proof -
  let ?s0 = "run parse new_StdioClient evs"
  have inv0: "client_inv ?s0" by (rule inv_reachable)
  have n0: "nextHandle ?s0 = max_safe" by (simp add: nextHandle_reachable c)
  have m0: "messageId ?s0 = max_safe" using client_invD(1)[OF inv0] n0 by simp
  have l0: "length (stdin ?s0) = max_safe" using client_invD(2)[OF inv0] n0 by simp
  have s: "s = snd (sendRequest m p (snd (sendRequest m p ?s0)))"
    unfolding s_def by (simp only: run_append run_Cons run_Nil step.simps)
  show "length (stdin s) = max_safe + 2"
    unfolding s by (simp add: sendRequest_eq l0)
  show "rid (stdin s ! max_safe) = js_String max_safe"
    unfolding s by (simp add: sendRequest_eq l0 m0 n0 nth_append make_request_def js_increment_def)
  show "rid (stdin s ! (max_safe + 1)) = js_String max_safe"
    unfolding s by (simp add: sendRequest_eq l0 m0 n0 nth_append make_request_def js_increment_def)
  show "timers s max_safe =
      Some \<lparr>captured_id = js_String max_safe, captured_method = m, delay_ms = 10000\<rparr>"
    unfolding s by (simp add: sendRequest_eq m0 n0 js_increment_def)
  show "timers s (max_safe + 1) =
      Some \<lparr>captured_id = js_String max_safe, captured_method = m, delay_ms = 10000\<rparr>"
    unfolding s by (simp add: sendRequest_eq m0 n0 js_increment_def)
  show "messageQueue s (js_String max_safe) = Some (max_safe + 1)"
    unfolding s by (simp add: sendRequest_eq m0 n0 js_increment_def)
  show "promises s max_safe = Some Pending"
    unfolding s by (simp add: sendRequest_eq m0 n0 js_increment_def)
  show "promises s (max_safe + 1) = Some Pending"
    unfolding s by (simp add: sendRequest_eq m0 n0 js_increment_def)
qed

lemma two_timers_one_entry:
  assumes "timers s a = Some \<lparr>captured_id = i, captured_method = m, delay_ms = d\<rparr>"
    and "timers s b = Some \<lparr>captured_id = i, captured_method = m, delay_ms = d\<rparr>"
    and "a \<noteq> b" and "messageQueue s i = Some b"
    and "promises s a = Some Pending" and "promises s b = Some Pending"
  shows "messageQueue (fire_timeout a s) i = None"
    and "promises (fire_timeout a s) b = Some Pending"
    and "timers (fire_timeout a s) b = Some \<lparr>captured_id = i, captured_method = m, delay_ms = d\<rparr>"
    and "stdin (fire_timeout a s) = stdin s"
    and "promises (fire_timeout b (fire_timeout a s)) b = Some Pending"
    and "timers (fire_timeout b (fire_timeout a s)) b = None"
    and "timers (fire_timeout b (fire_timeout a s)) a = None"
    and "promises (fire_timeout b (fire_timeout a s)) a = Some (Rejected (timeout_error m))"
  using assms
  by (simp_all add: fire_timeout_def timeout_callback_def promise_reject_def)

lemma shared_identifier:
  assumes c: "calls evs = max_safe"
  shows "identifiers (run parse new_StdioClient (evs @ [SendRequest m p, SendRequest m p])) ! max_safe
         = js_String max_safe"
    and "identifiers (run parse new_StdioClient (evs @ [SendRequest m p, SendRequest m p])) ! (max_safe + 1)
         = js_String max_safe"
    and "length (identifiers (run parse new_StdioClient (evs @ [SendRequest m p, SendRequest m p])))
         = max_safe + 2"
  using saturated_two_calls(1-3)[OF c, of parse m p]
  by (simp_all add: identifiers_def)

lemma unsettled_after_both_timers:
  assumes c: "calls evs = max_safe"
  shows "promises (run parse new_StdioClient
       (evs @ [SendRequest m p, SendRequest m p, TimerFires max_safe, TimerFires (max_safe + 1)]))
     (max_safe + 1) = Some Pending"
    and "timers (run parse new_StdioClient
       (evs @ [SendRequest m p, SendRequest m p, TimerFires max_safe, TimerFires (max_safe + 1)]))
     (max_safe + 1) = None"
    and "promises (run parse new_StdioClient
       (evs @ [SendRequest m p, SendRequest m p, TimerFires max_safe, TimerFires (max_safe + 1)]))
     max_safe = Some (Rejected (timeout_error m))"
proof -
  let ?s = "run parse new_StdioClient (evs @ [SendRequest m p, SendRequest m p])"
  note t = saturated_two_calls[OF c, of parse m p]
  have e: "run parse new_StdioClient
       (evs @ [SendRequest m p, SendRequest m p, TimerFires max_safe, TimerFires (max_safe + 1)]) =
     fire_timeout (max_safe + 1) (fire_timeout max_safe ?s)"
    by (simp only: run_append run_Cons run_Nil step.simps)
  have ne: "max_safe \<noteq> max_safe + 1" by simp
  note f = two_timers_one_entry[OF t(4) t(5) ne t(6) t(7) t(8)]
  show "promises (run parse new_StdioClient
       (evs @ [SendRequest m p, SendRequest m p, TimerFires max_safe, TimerFires (max_safe + 1)]))
     (max_safe + 1) = Some Pending"
    unfolding e by (rule f(5))
  show "timers (run parse new_StdioClient
       (evs @ [SendRequest m p, SendRequest m p, TimerFires max_safe, TimerFires (max_safe + 1)]))
     (max_safe + 1) = None"
    unfolding e by (rule f(6))
  show "promises (run parse new_StdioClient
       (evs @ [SendRequest m p, SendRequest m p, TimerFires max_safe, TimerFires (max_safe + 1)]))
     max_safe = Some (Rejected (timeout_error m))"
    unfolding e by (rule f(8))
qed

lemma absent_and_unsettled:
  fixes parse m p evs
  assumes c: "calls evs = max_safe"
  defines "s \<equiv> run parse new_StdioClient
       (evs @ [SendRequest m p, SendRequest m p, TimerFires max_safe])"
  shows "length (stdin s) = max_safe + 2"
    and "rid (stdin s ! (max_safe + 1)) = js_String max_safe"
    and "messageQueue s (js_String max_safe) = None"
    and "promises s (max_safe + 1) = Some Pending"
    and "timers s (max_safe + 1) =
      Some \<lparr>captured_id = js_String max_safe, captured_method = m, delay_ms = 10000\<rparr>"
proof -
  let ?s = "run parse new_StdioClient (evs @ [SendRequest m p, SendRequest m p])"
  note t = saturated_two_calls[OF c, of parse m p]
  have e: "s = fire_timeout max_safe ?s"
    unfolding s_def by (simp only: run_append run_Cons run_Nil step.simps)
  have ne: "max_safe \<noteq> max_safe + 1" by simp
  note f = two_timers_one_entry[OF t(4) t(5) ne t(6) t(7) t(8)]
  show "length (stdin s) = max_safe + 2" unfolding e f(4) by (rule t(1))
  show "rid (stdin s ! (max_safe + 1)) = js_String max_safe" unfolding e f(4) by (rule t(3))
  show "messageQueue s (js_String max_safe) = None" unfolding e by (rule f(1))
  show "promises s (max_safe + 1) = Some Pending" unfolding e by (rule f(2))
  show "timers s (max_safe + 1) =
      Some \<lparr>captured_id = js_String max_safe, captured_method = m, delay_ms = 10000\<rparr>"
    unfolding e by (rule f(3))
qed

lemma js_String_2_53: "js_String (2 ^ 53) = ''9007199254740992''"
  by (simp add: js_String.simps digit_char_def)

lemma written_request_accounted:
  assumes inv: "client_inv s" and k: "k < length (stdin s)" "k < max_safe"
  shows "messageQueue s (rid (stdin s ! k)) = Some k \<or>
     (\<exists>v. promises s k = Some (Resolved v)) \<or> (\<exists>e. promises s k = Some (Rejected e))"
proof -
  note a = client_invD[OF inv]
  from k a(2) have kn: "k < nextHandle s" by simp
  from a(6)[OF kn] obtain out where out: "promises s k = Some out" by auto
  show ?thesis
  proof (cases out)
    case Pending
    with out pending_call_has_timer[OF inv kn k(2)] show ?thesis by auto
  next
    case (Resolved v)
    with out show ?thesis by simp
  next
    case (Rejected e)
    with out show ?thesis by simp
  qed
qed

section \<open>The module's variables do not reach the requests\<close>

lemma client_part_closure:
  "client_part (on_exit code signal s) = client_part s"
  "client_part (shutdownNotionMCPServer reason s) = client_part s"
  by (simp_all add: client_part_def on_exit_def shutdownNotionMCPServer_def console_print_def Let_def)

lemma client_part_eq:
  "client_part s = client_part s' \<longleftrightarrow>
     (\<exists>c a b k. s' = s\<lparr>console := c, notionMCPServerProcess := a, notionMCPClient := b, kill_signals := k\<rparr>)"
proof
  assume "client_part s = client_part s'"
  then have "s' = s\<lparr>console := console s', notionMCPServerProcess := notionMCPServerProcess s',
      notionMCPClient := notionMCPClient s', kill_signals := kill_signals s'\<rparr>"
    by (cases s; cases s') (simp add: client_part_def)
  then show "\<exists>c a b k. s' = s\<lparr>console := c, notionMCPServerProcess := a, notionMCPClient := b, kill_signals := k\<rparr>"
    by blast
next
  assume "\<exists>c a b k. s' = s\<lparr>console := c, notionMCPServerProcess := a, notionMCPClient := b, kill_signals := k\<rparr>"
  then show "client_part s = client_part s'" by (auto simp: client_part_def)
qed

lemma handle_message_globals:
  "handle_message parse l (s\<lparr>notionMCPServerProcess := a, notionMCPClient := b, kill_signals := k\<rparr>) =
   (handle_message parse l s)\<lparr>notionMCPServerProcess := a, notionMCPClient := b, kill_signals := k\<rparr>"
  by (simp add: handle_message_def settle_pending_def ops Let_def
      split: option.splits jsval.splits)

lemma client_part_frame: "client_part (frame s) = client_part s"
  by (simp add: client_part_def frame_def)

lemma client_part_handle_message:
  assumes "client_part s = client_part s'"
  shows "client_part (handle_message parse l s) = client_part (handle_message parse l s')"
proof -
  from assms obtain c a b k where
    "s' = s\<lparr>console := c, notionMCPServerProcess := a, notionMCPClient := b, kill_signals := k\<rparr>"
    unfolding client_part_eq by blast
  then have s': "s' = (s\<lparr>notionMCPServerProcess := a, notionMCPClient := b, kill_signals := k\<rparr>)\<lparr>console := c\<rparr>"
    by simp
  have "client_part (handle_message parse l s') = client_part (frame (handle_message parse l s'))"
    by (simp only: client_part_frame)
  also have "\<dots> = client_part (frame (handle_message parse l
      (s\<lparr>notionMCPServerProcess := a, notionMCPClient := b, kill_signals := k\<rparr>)))"
    unfolding s' by (simp only: handle_message_console)
  also have "\<dots> = client_part (handle_message parse l s)"
    by (simp only: client_part_frame handle_message_globals) (simp add: client_part_def)
  finally show ?thesis by simp
qed

lemma client_part_foldl_handle:
  "client_part s = client_part s' \<Longrightarrow>
   client_part (foldl (\<lambda>s' m. handle_message parse m s') s ls) =
   client_part (foldl (\<lambda>s' m. handle_message parse m s') s' ls)"
proof (induction ls arbitrary: s s')
  case Nil
  then show ?case by simp
next
  case (Cons l ls)
  from Cons.IH[OF client_part_handle_message[OF Cons.prems, of parse l]] show ?case by simp
qed

lemma client_part_step:
  assumes "client_part s = client_part s'"
  shows "client_part (step parse s ev) = client_part (step parse s' ev)"
proof (cases ev)
  case (Data c)
  have "client_part (console_print (RawResponse c) s) = client_part (console_print (RawResponse c) s')"
    using assms by (simp add: client_part_def console_print_def)
  from client_part_foldl_handle[OF this] show ?thesis using Data by (simp add: on_data_def)
next
  case (TimerFires h)
  then show ?thesis using assms
    by (simp add: client_part_def fire_timeout_def timeout_callback_def promise_reject_def
        split: option.splits)
next
  case (SendRequest m p)
  then show ?thesis using assms by (simp add: client_part_def sendRequest_eq)
next
  case ListTools
  then show ?thesis using assms by (simp add: client_part_def sendRequest_eq listTools_def)
next
  case (ToolCall ns n p)
  then show ?thesis using assms by (simp add: client_part_def sendRequest_eq getTool_call_def)
next
  case GetServerInfo
  then show ?thesis using assms by (simp add: getServerInfo_def)
next
  case (Shutdown r)
  then show ?thesis using assms by (simp add: client_part_def shutdownNotionMCPServer_def console_print_def Let_def)
next
  case (ProcessExit c g)
  then show ?thesis using assms by (simp add: client_part_def on_exit_def console_print_def)
next
  case (StderrData d)
  then show ?thesis using assms by (simp add: client_part_def on_stderr_def console_print_def)
qed

lemma client_part_run:
  "client_part s = client_part s' \<Longrightarrow> client_part (run parse s evs) = client_part (run parse s' evs)"
proof (induction evs arbitrary: s s')
  case Nil
  then show ?case by simp
next
  case (Cons ev evs)
  from Cons.IH[OF client_part_step[OF Cons.prems, of parse ev]] show ?case by simp
qed

lemma closure_no_effect_later:
  "client_part (run parse (on_exit code signal s) evs) = client_part (run parse s evs)"
  "client_part (run parse (run parse s [Shutdown reason, ProcessExit code signal]) evs) = client_part (run parse s evs)"
proof -
  show "client_part (run parse (on_exit code signal s) evs) = client_part (run parse s evs)"
    by (rule client_part_run) (rule client_part_closure)
  have "client_part (run parse s [Shutdown reason, ProcessExit code signal]) = client_part s"
    by (simp add: client_part_closure)
  then show "client_part (run parse (run parse s [Shutdown reason, ProcessExit code signal]) evs) = client_part (run parse s evs)"
    by (rule client_part_run)
qed

section \<open>The order of the calls on the timers, the table and the stream\<close>

lemma written_handle_message [simp]:
  "stdin (handle_message parse l s) = stdin s" "effects (handle_message parse l s) = effects s"
  using handle_message_cases[of parse l s]
  by (auto simp: settle_pending_def ops split: if_splits)

lemma written_foldl_handle [simp]:
  "stdin (foldl (\<lambda>s' message. handle_message parse message s') s ls) = stdin s"
  "effects (foldl (\<lambda>s' message. handle_message parse message s') s ls) = effects s"
  by (induction ls arbitrary: s) simp_all

lemma written_step:
  "\<not> is_call ev \<Longrightarrow> stdin (step parse s ev) = stdin s \<and> effects (step parse s ev) = effects s"
  by (cases ev)
    (simp_all add: getServerInfo_def on_data_def
      console_print_def fire_timeout_def timeout_callback_def promise_reject_def
      shutdownNotionMCPServer_def on_exit_def on_stderr_def Let_def split: option.splits)

lemma call_step:
  "is_call ev \<Longrightarrow> \<exists>m p. step parse s ev = snd (sendRequest m p s)"
  by (cases ev) (auto simp: listTools_def getTool_call_def)

lemma effects_call:
  assumes n: "length (stdin s) = nextHandle s"
    and e: "effects s =
      concat (map (\<lambda>k. [TimerArmed k \<lparr>captured_id = rid (stdin s ! k),
                                      captured_method = rmethod (stdin s ! k), delay_ms = 10000\<rparr>,
                         EntryStored (rid (stdin s ! k)) k, LineWritten (stdin s ! k)])
                [0..<length (stdin s)])"
    and s': "s' = snd (sendRequest m p s)"
  shows "effects s' =
      concat (map (\<lambda>k. [TimerArmed k \<lparr>captured_id = rid (stdin s' ! k),
                                      captured_method = rmethod (stdin s' ! k), delay_ms = 10000\<rparr>,
                         EntryStored (rid (stdin s' ! k)) k, LineWritten (stdin s' ! k)])
                [0..<length (stdin s')])"
proof -
  define r where "r = make_request (js_String (messageId s)) m p"
  have st: "stdin s' = stdin s @ [r]"
    and ef: "effects s' = effects s @
       [TimerArmed (nextHandle s) \<lparr>captured_id = rid r, captured_method = rmethod r, delay_ms = 10000\<rparr>,
        EntryStored (rid r) (nextHandle s), LineWritten r]"
    by (simp_all add: s' sendRequest_eq r_def make_request_def)
  have old: "map (\<lambda>k. [TimerArmed k \<lparr>captured_id = rid (stdin s' ! k),
                                      captured_method = rmethod (stdin s' ! k), delay_ms = 10000\<rparr>,
                         EntryStored (rid (stdin s' ! k)) k, LineWritten (stdin s' ! k)])
                [0..<length (stdin s)] =
      map (\<lambda>k. [TimerArmed k \<lparr>captured_id = rid (stdin s ! k),
                                      captured_method = rmethod (stdin s ! k), delay_ms = 10000\<rparr>,
                         EntryStored (rid (stdin s ! k)) k, LineWritten (stdin s ! k)])
                [0..<length (stdin s)]"
    by (rule map_cong) (simp_all add: st nth_append)
  have l: "[0..<length (stdin s')] = [0..<length (stdin s)] @ [length (stdin s)]"
    by (simp add: st)
  show ?thesis
    unfolding l map_append concat_append old e[symmetric] ef
    by (simp add: st n[symmetric])
qed

lemma effects_reachable:
  "effects (run parse new_StdioClient evs) =
     concat (map (\<lambda>k. [TimerArmed k \<lparr>captured_id = rid (stdin (run parse new_StdioClient evs) ! k),
                                     captured_method = rmethod (stdin (run parse new_StdioClient evs) ! k),
                                     delay_ms = 10000\<rparr>,
                        EntryStored (rid (stdin (run parse new_StdioClient evs) ! k)) k,
                        LineWritten (stdin (run parse new_StdioClient evs) ! k)])
               [0..<length (stdin (run parse new_StdioClient evs))])"
proof (induction evs rule: rev_induct)
  case Nil
  show ?case by (simp add: new_StdioClient_def)
next
  case (snoc ev evs)
  let ?s = "run parse new_StdioClient evs"
  have n: "length (stdin ?s) = nextHandle ?s"
    using client_invD(2)[OF inv_reachable[of parse evs]] .
  show ?case
  proof (cases "is_call ev")
    case True
    from call_step[OF True, of parse ?s] obtain m p where
      st: "step parse ?s ev = snd (sendRequest m p ?s)" by blast
    from effects_call[OF n snoc.IH st] show ?thesis by (simp only: run_snoc)
  next
    case False
    from written_step[OF False, of parse ?s] snoc.IH show ?thesis by (simp only: run_snoc)
  qed
qed

lemma length_concat_triples:
  "(\<And>k. length (f k) = 3) \<Longrightarrow> length (concat (map f [0..<n])) = 3 * n"
  by (induction n) simp_all

lemma concat_triples_nth:
  assumes f: "\<And>k. length (f k) = 3" and k: "k < n" and j: "j < 3"
  shows "concat (map f [0..<n]) ! (3 * k + j) = f k ! j"
  using k
proof (induction n)
  case 0
  then show ?case by simp
next
  case (Suc n)
  have l: "length (concat (map f [0..<n])) = 3 * n" by (rule length_concat_triples[OF f])
  show ?case
  proof (cases "k < n")
    case True
    then have "3 * k + j < 3 * n" using j by simp
    then show ?thesis using Suc.IH[OF True] l by (simp add: nth_append)
  next
    case False
    with Suc.prems have "k = n" by simp
    then show ?thesis using l by (simp add: nth_append)
  qed
qed

lemma write_preceded:
  assumes e: "effects s =
      concat (map (\<lambda>k. [TimerArmed k \<lparr>captured_id = rid (stdin s ! k),
                                      captured_method = rmethod (stdin s ! k), delay_ms = 10000\<rparr>,
                         EntryStored (rid (stdin s ! k)) k, LineWritten (stdin s ! k)])
                [0..<length (stdin s)])"
    and n: "n < length (effects s)" and w: "effects s ! n = LineWritten r"
  shows "2 \<le> n \<and> n div 3 < length (stdin s) \<and> r = stdin s ! (n div 3) \<and>
     effects s ! (n - 2) =
       TimerArmed (n div 3) \<lparr>captured_id = rid r, captured_method = rmethod r, delay_ms = 10000\<rparr> \<and>
     effects s ! (n - 1) = EntryStored (rid r) (n div 3)"
proof -
  define f where "f = (\<lambda>k. [TimerArmed k \<lparr>captured_id = rid (stdin s ! k),
                                      captured_method = rmethod (stdin s ! k), delay_ms = 10000\<rparr>,
                         EntryStored (rid (stdin s ! k)) k, LineWritten (stdin s ! k)])"
  have fl: "\<And>k. length (f k) = 3" by (simp add: f_def)
  have e': "effects s = concat (map f [0..<length (stdin s)])" unfolding f_def by (rule e)
  have len: "length (effects s) = 3 * length (stdin s)"
    unfolding e' by (rule length_concat_triples[OF fl])
  define k where "k = n div 3"
  define j where "j = n mod 3"
  have nk: "n = 3 * k + j" and j3: "j < 3" by (simp_all add: k_def j_def)
  have kn: "k < length (stdin s)" using n len nk by simp
  have at: "effects s ! (3 * k + j') = f k ! j'" if "j' < 3" for j'
    unfolding e' by (rule concat_triples_nth[OF fl kn that])
  have "f k ! j = LineWritten r" using w at[OF j3] nk by simp
  then have j2: "j = 2" and r: "r = stdin s ! k"
    using j3 by (auto simp: f_def nth_Cons split: nat.splits)
  have n2: "n = 3 * k + 2" using nk j2 by simp
  have a0: "effects s ! (n - 2) = f k ! 0" using at[of 0] n2 by simp
  have a1: "effects s ! (n - 1) = f k ! 1" using at[of 1] n2 by simp
  show ?thesis
    using n2 kn r a0 a1 unfolding k_def[symmetric] by (simp add: f_def)
qed

section \<open>The claims\<close>

subsection \<open>C1: a response settles exactly its pending request\<close>



subsection \<open>C2: the identifiers of the calls\<close>

text \<open>
  C2 (as the code has it). In every run of one client instance, whatever the order of
  calls, chunks, timers and shutdowns, the \<open>k\<close>-th call of \<^verbatim>\<open>sendRequest\<close> is given
  the identifier \<^verbatim>\<open>String(min(k, 2^53))\<close>; the numbers the identifiers denote never
  decrease. As long as the instance has made at most \<open>2^53 + 1\<close> calls, the identifiers
  are \<^verbatim>\<open>"0", "1", "2", ...\<close>: pairwise different and strictly increasing.
\<close>

theorem identifiers_unique_below_2_53:
  "identifiers (run parse new_StdioClient evs) =
     map (\<lambda>k. js_String (min k (2 ^ 53))) [0..<calls evs] \<and>
   sorted (map digits_value (identifiers (run parse new_StdioClient evs))) \<and>
   (calls evs \<le> 2 ^ 53 + 1 \<longrightarrow>
      identifiers (run parse new_StdioClient evs) = map js_String [0..<calls evs] \<and>
      distinct (identifiers (run parse new_StdioClient evs)) \<and>
      sorted_wrt (<) (map digits_value (identifiers (run parse new_StdioClient evs))))"
  unfolding max_safe_def[symmetric]
proof (intro conjI impI)
  let ?ids = "identifiers (run parse new_StdioClient evs)"
  show eq: "?ids = map (\<lambda>k. js_String (min k max_safe)) [0..<calls evs]"
    by (rule identifiers_reachable)
  have dv: "map digits_value ?ids = map (\<lambda>k. min k max_safe) [0..<calls evs]"
    unfolding eq by (simp add: digits_value_js_String comp_def)
  show "sorted (map digits_value ?ids)"
    unfolding dv by (rule min_max_safe_sorted)
  assume b: "calls evs \<le> max_safe + 1"
  show eq': "?ids = map js_String [0..<calls evs]"
    by (rule identifiers_bounded[OF b])
  show "distinct ?ids"
    unfolding eq' by (auto simp: distinct_map inj_on_def dest: js_String_inj)
  have "map digits_value (map js_String [0..<calls evs]) = [0..<calls evs]"
    by (simp add: digits_value_js_String comp_def)
  then show "sorted_wrt (<) (map digits_value ?ids)"
    unfolding eq' by (simp only: sorted_wrt_upt)
qed

theorem identifiers_unique_below_2_53_witness:
  "calls [SendRequest ''tools/call'' (JObj []), ListTools, Data ''x'', ToolCall ''API'' ''post-search'' (JObj [])] \<le> 2 ^ 53 + 1 \<and>
   identifiers (run JSON_parse new_StdioClient
     [SendRequest ''tools/call'' (JObj []), ListTools, Data ''x'', ToolCall ''API'' ''post-search'' (JObj [])])
     = [''0'', ''1'', ''2'']"
proof -
  let ?evs = "[SendRequest ''tools/call'' (JObj []), ListTools, Data ''x'',
               ToolCall ''API'' ''post-search'' (JObj [])]"
  have c: "calls ?evs = 3" by simp
  have b: "calls ?evs \<le> 2 ^ 53 + 1" unfolding c by simp
  have j: "map js_String [0..<3] = [''0'', ''1'', ''2'']"
    by (simp add: upt_rec js_String.simps digit_char_def)
  from identifiers_unique_below_2_53[of JSON_parse ?evs] b
  have "identifiers (run JSON_parse new_StdioClient ?evs) = map js_String [0..<calls ?evs]"
    by blast
  then have "identifiers (run JSON_parse new_StdioClient ?evs) = [''0'', ''1'', ''2'']"
    unfolding c j .
  with b show ?thesis by blast
qed

text \<open>
  The claim as stated, for every sequence of calls, fails: the counter is a double, and
  \<^verbatim>\<open>messageId++\<close> no longer changes it at \<open>2^53\<close>. In the run below each of the first
  \<open>2^53\<close> calls is settled, by its timer, before the next call is made, and two more calls
  follow. Call
  number \<open>2^53\<close> and call number \<open>2^53 + 1\<close> (counting from 0) both get
  \<^verbatim>\<open>"9007199254740992"\<close>.
\<close>

theorem identifier_repeats_after_2_53_counterexample:
  "let ids = identifiers (run JSON_parse new_StdioClient
               (concat (map (\<lambda>k. [SendRequest ''tools/call'' (JObj []), TimerFires k]) [0..<2 ^ 53]) @
                [SendRequest ''tools/call'' (JObj []), SendRequest ''tools/call'' (JObj [])]))
   in length ids = 2 ^ 53 + 2 \<and>
      ids ! (2 ^ 53) = ''9007199254740992'' \<and> ids ! (2 ^ 53 + 1) = ''9007199254740992''"
  using shared_identifier[OF calls_timed_out[of "''tools/call''" "JObj []" max_safe], of JSON_parse
      "''tools/call''" "JObj []"]
  unfolding max_safe_def Let_def js_String_2_53 by (intro conjI)

subsection \<open>C3: a message split across two chunks\<close>

text \<open>
  C3 (as the code has it). The listener keeps no buffer from one chunk to the next: the
  envelopes parsed from a sequence of chunks are, chunk by chunk, the envelopes of each
  chunk taken alone (the lines of the trimmed chunk that start with \<^verbatim>\<open>{\<close> and parse). A
  message that arrives whole, as the one line of a chunk, yields exactly one envelope. A
  message split across two chunks, so that the first chunk is a line that does not parse
  and the second a line that does not start with \<^verbatim>\<open>{\<close> or does not parse, yields no
  envelope, and settles no request: the two chunks change nothing but the console.
\<close>

theorem chunks_framed_independently:
  "envelopes (console (run parse s (map Data chunks))) =
     envelopes (console s) @ concat (map (chunk_envelopes parse) chunks) \<and>
   (split_newline (trim c) = [l] \<and> startsWith_brace l \<and> parse l = Some v \<longrightarrow>
      envelopes (console (on_data parse c s)) = envelopes (console s) @ [v]) \<and>
   (split_newline (trim a) = [la] \<and> parse la = None \<and>
    split_newline (trim b) = [lb] \<and> malformed parse lb \<longrightarrow>
      envelopes (console (run parse s [Data a, Data b])) = envelopes (console s) \<and>
      frame (run parse s [Data a, Data b]) = frame s)"
proof (intro conjI impI)
  show "envelopes (console (run parse s (map Data chunks))) =
     envelopes (console s) @ concat (map (chunk_envelopes parse) chunks)"
    by (rule envelopes_run_data)
next
  assume "split_newline (trim c) = [l] \<and> startsWith_brace l \<and> parse l = Some v"
  then show "envelopes (console (on_data parse c s)) = envelopes (console s) @ [v]"
    by (simp add: envelopes_on_data chunk_envelopes_single line_envelope_def)
next
  assume h: "split_newline (trim a) = [la] \<and> parse la = None \<and>
    split_newline (trim b) = [lb] \<and> malformed parse lb"
  then have ma: "malformed parse la" by (simp add: malformed_def)
  from h ma have e: "chunk_envelopes parse a = []" "chunk_envelopes parse b = []"
    by (simp_all add: chunk_envelopes_single line_envelope_malformed)
  show "envelopes (console (run parse s [Data a, Data b])) = envelopes (console s)"
    using envelopes_run_data[of parse s "[a, b]"] e by simp
  have "frame (on_data parse a s) = frame s"
    by (rule on_data_all_malformed) (use h ma in simp)
  moreover have "frame (on_data parse b (on_data parse a s)) = frame (on_data parse a s)"
    by (rule on_data_all_malformed) (use h in simp)
  ultimately show "frame (run parse s [Data a, Data b]) = frame s" by simp
qed

theorem chunks_framed_independently_witness:
  \<open>let s = run JSON_parse new_StdioClient [ListTools, SendRequest ''tools/call'' (JObj [])];
       la = ''{"id":"1","result":{"results":['';
       lb = ''{"title":"Roadmap"}]}}'';
       l = la @ lb;
       v = JObj [(''id'', JStr ''1''),
                 (''result'', JObj [(''results'', JArr [JObj [(''title'', JStr ''Roadmap'')]])])]
   in split_newline (trim (l @ [newline])) = [l] \<and> startsWith_brace l \<and> JSON_parse l = Some v \<and>
      envelopes (console (on_data JSON_parse (l @ [newline]) s)) = [v] \<and>
      split_newline (trim la) = [la] \<and> JSON_parse la = None \<and>
      split_newline (trim (lb @ [newline])) = [lb] \<and> malformed JSON_parse lb \<and>
      envelopes (console (run JSON_parse s [Data la, Data (lb @ [newline])])) = [] \<and>
      frame (run JSON_parse s [Data la, Data (lb @ [newline])]) = frame s\<close>
proof -
  define s where "s = run JSON_parse new_StdioClient [ListTools, SendRequest ''tools/call'' (JObj [])]"
  define la where \<open>la = ''{"id":"1","result":{"results":[''\<close>
  define lb where \<open>lb = ''{"title":"Roadmap"}]}}''\<close>
  define l where "l = la @ lb"
  define v where "v = JObj [(''id'', JStr ''1''),
                 (''result'', JObj [(''results'', JArr [JObj [(''title'', JStr ''Roadmap'')]])])]"
  have p: "JSON_parse l = Some v" unfolding l_def la_def lb_def v_def by code_simp
  have pa: "JSON_parse la = None" unfolding la_def by code_simp
  have pb: "JSON_parse lb = None" unfolding lb_def by code_simp
  have mb: "malformed JSON_parse lb" by (simp add: malformed_def pb)
  have sb: "startsWith_brace l" by (simp add: startsWith_brace_def l_def la_def)
  have lines: "split_newline (trim (l @ [newline])) = [l]" "split_newline (trim la) = [la]"
    "split_newline (trim (lb @ [newline])) = [lb]"
    by (simp_all add: l_def la_def lb_def trim_def is_space_def newline_def)
  have c0: "envelopes (console s) = []"
    by (simp add: s_def sendRequest_eq listTools_def new_StdioClient_def)
  note th = chunks_framed_independently[of JSON_parse s "[]" "l @ [newline]" l v la la "lb @ [newline]" lb]
  from th lines sb p have 1: "envelopes (console (on_data JSON_parse (l @ [newline]) s)) = [v]"
    unfolding c0 by simp
  from th lines pa mb have 2: "envelopes (console (run JSON_parse s [Data la, Data (lb @ [newline])])) = []"
    and 3: "frame (run JSON_parse s [Data la, Data (lb @ [newline])]) = frame s"
    unfolding c0 by blast+
  have "split_newline (trim (l @ [newline])) = [l] \<and> startsWith_brace l \<and> JSON_parse l = Some v \<and>
      envelopes (console (on_data JSON_parse (l @ [newline]) s)) = [v] \<and>
      split_newline (trim la) = [la] \<and> JSON_parse la = None \<and>
      split_newline (trim (lb @ [newline])) = [lb] \<and> malformed JSON_parse lb \<and>
      envelopes (console (run JSON_parse s [Data la, Data (lb @ [newline])])) = [] \<and>
      frame (run JSON_parse s [Data la, Data (lb @ [newline])]) = frame s"
    using lines sb p pa mb 1 2 3 by (intro conjI)
  then show ?thesis
    unfolding Let_def l_def[symmetric] s_def la_def lb_def v_def
    by (simp only: l_def la_def lb_def)
qed

text \<open>
  The claim as stated fails on its own example. With requests \<^verbatim>\<open>"0"\<close> and \<^verbatim>\<open>"1"\<close>
  pending, the chunk \<^verbatim>\<open>{"id":"1"\<close> is refused by \<^verbatim>\<open>JSON.parse\<close> and the later chunk
  \<^verbatim>\<open>,"result":{}}\n\<close> does not start with \<^verbatim>\<open>{\<close>: no envelope is parsed, and request
  \<^verbatim>\<open>"1"\<close> stays pending.
\<close>

theorem split_message_yields_no_envelope_counterexample:
  \<open>let s = run JSON_parse new_StdioClient
             [SendRequest ''tools/list'' (JObj []), SendRequest ''tools/list'' (JObj [])];
       s' = run JSON_parse s [Data ''{"id":"1"'', Data ('',"result":{}}'' @ [newline])]
   in promises s 1 = Some Pending \<and> messageQueue s ''1'' = Some 1 \<and>
      envelopes (console s') = [] \<and> length (envelopes (console s')) \<noteq> 1 \<and>
      promises s' 1 = Some Pending \<and> messageQueue s' ''1'' = Some 1 \<and>
      JSON_parse_result ''{"id":"1"'' = Inl SyntaxError \<and>
      \<not> startsWith_brace '',"result":{}}''\<close>
proof -
  define s where "s = run JSON_parse new_StdioClient
             [SendRequest ''tools/list'' (JObj []), SendRequest ''tools/list'' (JObj [])]"
  define a where \<open>a = ''{"id":"1"''\<close>
  define b where \<open>b = '',"result":{}}''\<close>
  define s' where "s' = run JSON_parse s [Data a, Data (b @ [newline])]"
  have pr: "JSON_parse_result a = Inl SyntaxError" unfolding a_def by code_simp
  then have pa: "JSON_parse a = None" by (simp add: JSON_parse_def)
  have nb: "\<not> startsWith_brace b" by (simp add: b_def startsWith_brace_def)
  have lines: "split_newline (trim a) = [a]" "split_newline (trim (b @ [newline])) = [b]"
    by (simp_all add: a_def b_def trim_def is_space_def newline_def)
  have m: "malformed JSON_parse a" "malformed JSON_parse b"
    by (simp_all add: malformed_def pa nb)
  have s0: "promises s 1 = Some Pending" "messageQueue s ''1'' = Some 1" "envelopes (console s) = []"
    by (simp_all add: s_def sendRequest_eq new_StdioClient_def js_String.simps
        digit_char_def js_increment_def max_safe_def)
  have e: "envelopes (console s') = []"
    unfolding s'_def using envelopes_run_data[of JSON_parse s "[a, b @ [newline]]"]
    by (simp add: s0 chunk_envelopes_single lines line_envelope_malformed m)
  have "frame (on_data JSON_parse a s) = frame s"
    by (rule on_data_all_malformed) (simp add: lines m)
  moreover have "frame (on_data JSON_parse (b @ [newline]) (on_data JSON_parse a s)) =
      frame (on_data JSON_parse a s)"
    by (rule on_data_all_malformed) (simp add: lines m)
  ultimately have f: "frame s' = frame s" by (simp add: s'_def)
  have fp: "promises s' = promises s" "messageQueue s' = messageQueue s"
    using f frame_fields by metis+
  have "promises s 1 = Some Pending \<and> messageQueue s ''1'' = Some 1 \<and>
      envelopes (console s') = [] \<and> length (envelopes (console s')) \<noteq> 1 \<and>
      promises s' 1 = Some Pending \<and> messageQueue s' ''1'' = Some 1 \<and>
      JSON_parse_result a = Inl SyntaxError \<and> \<not> startsWith_brace b"
    using s0 e pr nb by (simp add: fp)
  then show ?thesis
    unfolding Let_def s'_def s_def a_def b_def .
qed

subsection \<open>C4: the timeout of a call\<close>




subsection \<open>C5: closure of the transport\<close>

text \<open>
  C5 (as the code has it). The exit handler and \<^verbatim>\<open>shutdownNotionMCPServer\<close> reject
  nothing: they leave the table, the promises and the timers as they are, and after them
  the listener and the timers work as they did. Whatever events follow that are no calls
  (what a write to the input of a process that has exited does is not modelled), they
  leave the promises, the table and the timers as they would without the closure. In
  every run, an entry that is in the table when the process exits, or when the module
  shuts it down and it exits, is still there afterwards, with its promise pending and its
  timer armed with 10000 ms. It is settled afterwards as it would have been before: its
  timer, when it runs next, rejects the promise with the error
  \<^verbatim>\<open>Request timed out after 10 seconds: <method>\<close>, and a response with its identifier
  that the listener receives next, in the line \<open>l\<close> of the chunk \<open>c\<close>, settles the promise
  with the error or the result of the response. No error of another kind is raised for
  the closure.
\<close>

theorem closure_rejects_nothing:
  "promises (on_exit code signal s) = promises s \<and> messageQueue (on_exit code signal s) = messageQueue s \<and>
   timers (on_exit code signal s) = timers s \<and>
   promises (run parse s [Shutdown reason, ProcessExit code signal]) = promises s \<and>
   messageQueue (run parse s [Shutdown reason, ProcessExit code signal]) = messageQueue s \<and>
   timers (run parse s [Shutdown reason, ProcessExit code signal]) = timers s \<and>
   (calls later = 0 \<longrightarrow>
      promises (run parse (on_exit code signal s) later) = promises (run parse s later) \<and>
      messageQueue (run parse (on_exit code signal s) later) = messageQueue (run parse s later) \<and>
      timers (run parse (on_exit code signal s) later) = timers (run parse s later) \<and>
      promises (run parse s ([Shutdown reason, ProcessExit code signal] @ later)) =
        promises (run parse s later) \<and>
      messageQueue (run parse s ([Shutdown reason, ProcessExit code signal] @ later)) =
        messageQueue (run parse s later) \<and>
      timers (run parse s ([Shutdown reason, ProcessExit code signal] @ later)) =
        timers (run parse s later)) \<and>
   (s = run parse new_StdioClient evs \<and> messageQueue s i = Some h \<longrightarrow>
      promises (on_exit code signal s) h = Some Pending \<and>
      promises (run parse s [Shutdown reason, ProcessExit code signal]) h = Some Pending \<and>
      timers (on_exit code signal s) h =
        Some \<lparr>captured_id = i, captured_method = rmethod (stdin s ! h), delay_ms = 10000\<rparr> \<and>
      promises (fire_timeout h (on_exit code signal s)) h =
        Some (Rejected (JsError (JStr (''Request timed out after 10 seconds: '' @
                                      rmethod (stdin s ! h))))) \<and>
      promises (run parse s [Shutdown reason, ProcessExit code signal, TimerFires h]) h =
        Some (Rejected (JsError (JStr (''Request timed out after 10 seconds: '' @
                                      rmethod (stdin s ! h))))) \<and>
      (startsWith_brace l \<and> parse l = Some r \<and> get_property r ''id'' = Some (JStr i) \<and>
       split_newline (trim c) = [l] \<longrightarrow>
         promises (handle_message parse l (on_exit code signal s)) h =
           Some (if truthy (prop_of r ''error'')
                 then Rejected (JsError (prop_of (prop_of r ''error'') ''message''))
                 else Resolved (prop_of r ''result'')) \<and>
         promises (run parse s [ProcessExit code signal, Data c]) h =
           Some (if truthy (prop_of r ''error'')
                 then Rejected (JsError (prop_of (prop_of r ''error'') ''message''))
                 else Resolved (prop_of r ''result'')) \<and>
         promises (run parse s [Shutdown reason, ProcessExit code signal, Data c]) h =
           Some (if truthy (prop_of r ''error'')
                 then Rejected (JsError (prop_of (prop_of r ''error'') ''message''))
                 else Resolved (prop_of r ''result''))))"
proof (intro conjI impI)
  show f1: "promises (on_exit code signal s) = promises s" "messageQueue (on_exit code signal s) = messageQueue s"
    "timers (on_exit code signal s) = timers s"
    by (simp_all add: on_exit_def console_print_def)
  show f2: "promises (run parse s [Shutdown reason, ProcessExit code signal]) = promises s"
    "messageQueue (run parse s [Shutdown reason, ProcessExit code signal]) = messageQueue s"
    "timers (run parse s [Shutdown reason, ProcessExit code signal]) = timers s"
    by (simp_all add: on_exit_def shutdownNotionMCPServer_def console_print_def Let_def)
  have l1: "client_part (run parse (on_exit code signal s) later) = client_part (run parse s later)"
    by (rule closure_no_effect_later(1))
  have l2: "client_part (run parse s ([Shutdown reason, ProcessExit code signal] @ later)) =
      client_part (run parse s later)"
    unfolding run_append by (rule closure_no_effect_later(2))
  show "promises (run parse (on_exit code signal s) later) = promises (run parse s later)"
    "messageQueue (run parse (on_exit code signal s) later) = messageQueue (run parse s later)"
    "timers (run parse (on_exit code signal s) later) = timers (run parse s later)"
    using l1 by (simp_all add: client_part_def)
  show "promises (run parse s ([Shutdown reason, ProcessExit code signal] @ later)) =
        promises (run parse s later)"
    "messageQueue (run parse s ([Shutdown reason, ProcessExit code signal] @ later)) =
        messageQueue (run parse s later)"
    "timers (run parse s ([Shutdown reason, ProcessExit code signal] @ later)) =
        timers (run parse s later)"
    using l2 by (simp_all only: client_part_def prod.inject)
next
  assume h: "s = run parse new_StdioClient evs \<and> messageQueue s i = Some h"
  have f1: "promises (on_exit code signal s) = promises s" "messageQueue (on_exit code signal s) = messageQueue s"
    "timers (on_exit code signal s) = timers s"
    by (simp_all add: on_exit_def console_print_def)
  have f2: "promises (run parse s [Shutdown reason, ProcessExit code signal]) = promises s"
    "messageQueue (run parse s [Shutdown reason, ProcessExit code signal]) = messageQueue s"
    "timers (run parse s [Shutdown reason, ProcessExit code signal]) = timers s"
    by (simp_all add: on_exit_def shutdownNotionMCPServer_def console_print_def Let_def)
  from h have inv: "client_inv s" using inv_reachable[of parse evs] by blast
  from h have qi: "messageQueue s i = Some h" by (rule conjunct2)
  note a = client_invD[OF inv]
  from qi a(5)[of i h] obtain t where t: "timers s h = Some t" and i: "i = js_String (min h max_safe)"
    by auto
  note th = a(4)[OF t]
  have te: "t = \<lparr>captured_id = i, captured_method = rmethod (stdin s ! h), delay_ms = 10000\<rparr>"
    using th i by simp
  show "promises (on_exit code signal s) h = Some Pending" using th f1 by simp
  show "promises (run parse s [Shutdown reason, ProcessExit code signal]) h = Some Pending"
    using th f2 by simp
  show "timers (on_exit code signal s) h =
      Some \<lparr>captured_id = i, captured_method = rmethod (stdin s ! h), delay_ms = 10000\<rparr>"
    using t te f1 by simp
  have q: "messageQueue s (captured_id t) = Some h" using qi th i by simp
  have fire: "promises (fire_timeout h s') h =
      Some (Rejected (JsError (JStr (''Request timed out after 10 seconds: '' @ rmethod (stdin s ! h)))))"
    if "promises s' = promises s" "messageQueue s' = messageQueue s" "timers s' = timers s" for s'
    using that t q th
    by (simp add: fire_timeout_def timeout_callback_def promise_reject_def timeout_error_def)
  show "promises (fire_timeout h (on_exit code signal s)) h =
      Some (Rejected (JsError (JStr (''Request timed out after 10 seconds: '' @ rmethod (stdin s ! h)))))"
    by (rule fire[OF f1])
  show "promises (run parse s [Shutdown reason, ProcessExit code signal, TimerFires h]) h =
      Some (Rejected (JsError (JStr (''Request timed out after 10 seconds: '' @ rmethod (stdin s ! h)))))"
    using fire[OF f2] by simp
  assume resp: "startsWith_brace l \<and> parse l = Some r \<and> get_property r ''id'' = Some (JStr i) \<and>
       split_newline (trim c) = [l]"
  have settle: "promises (handle_message parse l s') h =
           Some (if truthy (prop_of r ''error'')
                 then Rejected (JsError (prop_of (prop_of r ''error'') ''message''))
                 else Resolved (prop_of r ''result''))"
    if i': "client_inv s'" and q': "messageQueue s' i = Some h" for s'
  proof -
    from response_settles[OF i' q', of l parse r] resp obtain co where
      "handle_message parse l s' =
         s'\<lparr>console := co, timers := (timers s')(h := None),
            promises := (promises s')(h \<mapsto> settled r),
            messageQueue := (messageQueue s')(i := None)\<rparr>" by blast
    then show ?thesis by (simp add: settled_def)
  qed
  have i1: "client_inv (on_exit code signal s)" using inv by (simp add: inv_on_exit)
  show "promises (handle_message parse l (on_exit code signal s)) h =
           Some (if truthy (prop_of r ''error'')
                 then Rejected (JsError (prop_of (prop_of r ''error'') ''message''))
                 else Resolved (prop_of r ''result''))"
    using settle[OF i1] f1 qi by simp
  from resp have lines: "split_newline (trim c) = [l]" by blast
  have dat: "step parse s' (Data c) = handle_message parse l (console_print (RawResponse c) s')" for s'
    using on_data_single_line[OF lines] by simp
  have printed: "client_inv (console_print (RawResponse c) s') = client_inv s'"
    "messageQueue (console_print (RawResponse c) s') = messageQueue s'" for s'
    by (simp_all add: console_print_def)
  have "promises (step parse (on_exit code signal s) (Data c)) h =
           Some (if truthy (prop_of r ''error'')
                 then Rejected (JsError (prop_of (prop_of r ''error'') ''message''))
                 else Resolved (prop_of r ''result''))"
    unfolding dat by (rule settle) (simp_all add: printed i1 f1 qi)
  then show "promises (run parse s [ProcessExit code signal, Data c]) h =
           Some (if truthy (prop_of r ''error'')
                 then Rejected (JsError (prop_of (prop_of r ''error'') ''message''))
                 else Resolved (prop_of r ''result''))"
    by simp
  have i2: "client_inv (run parse s [Shutdown reason, ProcessExit code signal])"
    using inv by (rule inv_run)
  have "promises (step parse (run parse s [Shutdown reason, ProcessExit code signal]) (Data c)) h =
           Some (if truthy (prop_of r ''error'')
                 then Rejected (JsError (prop_of (prop_of r ''error'') ''message''))
                 else Resolved (prop_of r ''result''))"
    unfolding dat by (rule settle) (simp_all only: printed i2 f2 qi)
  then show "promises (run parse s [Shutdown reason, ProcessExit code signal, Data c]) h =
           Some (if truthy (prop_of r ''error'')
                 then Rejected (JsError (prop_of (prop_of r ''error'') ''message''))
                 else Resolved (prop_of r ''result''))"
    using run_snoc[of parse s "[Shutdown reason, ProcessExit code signal]" "Data c"] by simp
qed

theorem closure_rejects_nothing_witness:
  \<open>let s = run JSON_parse new_StdioClient
             [ToolCall ''API'' ''post-search'' (JObj [(''query'', JStr ''roadmap'')])];
       l = ''{"id":"0","result":{"tools":[]}}'';
       r = JObj [(''id'', JStr ''0''), (''result'', JObj [(''tools'', JArr [])])];
       c = l @ [newline];
       closure = [Shutdown ''SIGTERM signal'', ProcessExit None (Some ''SIGTERM'')]
   in messageQueue s ''0'' = Some 0 \<and>
      promises (on_exit None (Some ''SIGTERM'') s) 0 = Some Pending \<and>
      timers (on_exit None (Some ''SIGTERM'') s) 0 =
        Some \<lparr>captured_id = ''0'', captured_method = ''tools/call'', delay_ms = 10000\<rparr> \<and>
      promises (run JSON_parse s (closure @ [TimerFires 0])) 0 =
        Some (Rejected (JsError (JStr ''Request timed out after 10 seconds: tools/call''))) \<and>
      startsWith_brace l \<and> JSON_parse l = Some r \<and> get_property r ''id'' = Some (JStr ''0'') \<and>
      split_newline (trim c) = [l] \<and>
      promises (run JSON_parse s (closure @ [Data c])) 0 =
        Some (Resolved (JObj [(''tools'', JArr [])])) \<and>
      calls [Data c, TimerFires 0] = 0 \<and>
      promises (run JSON_parse s (closure @ [Data c, TimerFires 0])) =
        promises (run JSON_parse s [Data c, TimerFires 0])\<close>
proof -
  define evs where "evs = [ToolCall ''API'' ''post-search'' (JObj [(''query'', JStr ''roadmap'')])]"
  define s where "s = run JSON_parse new_StdioClient evs"
  define l where \<open>l = ''{"id":"0","result":{"tools":[]}}''\<close>
  define r where "r = JObj [(''id'', JStr ''0''), (''result'', JObj [(''tools'', JArr [])])]"
  define c where "c = l @ [newline]"
  define later where "later = [Data c, TimerFires 0]"
  have q: "messageQueue s ''0'' = Some 0" and m: "rmethod (stdin s ! 0) = ''tools/call''"
    by (simp_all add: s_def evs_def sendRequest_eq getTool_call_def new_StdioClient_def
        js_String.simps digit_char_def make_request_def)
  have p: "JSON_parse l = Some r" unfolding l_def r_def by code_simp
  have sb: "startsWith_brace l" by (simp add: startsWith_brace_def l_def)
  have g: "get_property r ''id'' = Some (JStr ''0'')" by (simp add: r_def)
  have e: "\<not> truthy (prop_of r ''error'')" "prop_of r ''result'' = JObj [(''tools'', JArr [])]"
    by (simp_all add: r_def prop_of_def)
  have lines: "split_newline (trim c) = [l]"
    by (simp add: c_def l_def trim_def is_space_def newline_def)
  have cl: "calls later = 0" by (simp add: later_def)
  note th = closure_rejects_nothing[where s = s and parse = JSON_parse and reason = "''SIGTERM signal''"
      and evs = evs and i = "''0''" and h = 0 and code = None and signal = "Some ''SIGTERM''"
      and later = later and l = l and r = r and c = c]
  note lat = th[THEN conjunct2, THEN conjunct2, THEN conjunct2, THEN conjunct2, THEN conjunct2,
      THEN conjunct2, THEN conjunct1, rule_format, OF cl]
  note pen = th[THEN conjunct2, THEN conjunct2, THEN conjunct2, THEN conjunct2, THEN conjunct2,
      THEN conjunct2, THEN conjunct2, rule_format, OF conjI[OF s_def q], unfolded m]
  note res = pen[THEN conjunct2, THEN conjunct2, THEN conjunct2, THEN conjunct2, THEN conjunct2,
      rule_format, OF conjI[OF sb conjI[OF p conjI[OF g lines]]]]
  have 1: "promises (on_exit None (Some ''SIGTERM'') s) 0 = Some Pending"
    by (rule pen[THEN conjunct1])
  have 2: "timers (on_exit None (Some ''SIGTERM'') s) 0 =
        Some \<lparr>captured_id = ''0'', captured_method = ''tools/call'', delay_ms = 10000\<rparr>"
    by (rule pen[THEN conjunct2, THEN conjunct2, THEN conjunct1])
  have 3: "promises (run JSON_parse s ([Shutdown ''SIGTERM signal'', ProcessExit None (Some ''SIGTERM'')] @ [TimerFires 0])) 0 =
        Some (Rejected (JsError (JStr ''Request timed out after 10 seconds: tools/call'')))"
    using pen[THEN conjunct2, THEN conjunct2, THEN conjunct2, THEN conjunct2, THEN conjunct1]
    by (simp only: append_Cons append_Nil)
  have 4: "promises (run JSON_parse s ([Shutdown ''SIGTERM signal'', ProcessExit None (Some ''SIGTERM'')] @ [Data c])) 0 =
        Some (Resolved (JObj [(''tools'', JArr [])]))"
    using res[THEN conjunct2, THEN conjunct2] by (simp only: append_Cons append_Nil e if_False)
  have 5: "promises (run JSON_parse s ([Shutdown ''SIGTERM signal'', ProcessExit None (Some ''SIGTERM'')] @ later)) =
        promises (run JSON_parse s later)"
    by (rule lat[THEN conjunct2, THEN conjunct2, THEN conjunct2, THEN conjunct1])
  have "messageQueue s ''0'' = Some 0 \<and>
      promises (on_exit None (Some ''SIGTERM'') s) 0 = Some Pending \<and>
      timers (on_exit None (Some ''SIGTERM'') s) 0 =
        Some \<lparr>captured_id = ''0'', captured_method = ''tools/call'', delay_ms = 10000\<rparr> \<and>
      promises (run JSON_parse s ([Shutdown ''SIGTERM signal'', ProcessExit None (Some ''SIGTERM'')] @ [TimerFires 0])) 0 =
        Some (Rejected (JsError (JStr ''Request timed out after 10 seconds: tools/call''))) \<and>
      startsWith_brace l \<and> JSON_parse l = Some r \<and> get_property r ''id'' = Some (JStr ''0'') \<and>
      split_newline (trim c) = [l] \<and>
      promises (run JSON_parse s ([Shutdown ''SIGTERM signal'', ProcessExit None (Some ''SIGTERM'')] @ [Data c])) 0 =
        Some (Resolved (JObj [(''tools'', JArr [])])) \<and>
      calls later = 0 \<and>
      promises (run JSON_parse s ([Shutdown ''SIGTERM signal'', ProcessExit None (Some ''SIGTERM'')] @ later)) =
        promises (run JSON_parse s later)"
    using q 1 2 3 sb p g lines 4 cl 5 by (intro conjI)
  then show ?thesis unfolding Let_def s_def evs_def later_def c_def l_def r_def .
qed

text \<open>
  The claim as stated fails: with one call pending, after the exit of the process (and
  after a shutdown followed by the exit) the entry is in the table and the promise is
  pending; nothing has been rejected.
\<close>

theorem pending_survives_closure_counterexample:
  "let s = run JSON_parse new_StdioClient
             [ToolCall ''API'' ''post-search'' (JObj [(''query'', JStr ''roadmap'')])]
   in messageQueue s ''0'' = Some 0 \<and> promises s 0 = Some Pending \<and>
      messageQueue (run JSON_parse s [ProcessExit (Some 1) None]) ''0'' = Some 0 \<and>
      promises (run JSON_parse s [ProcessExit (Some 1) None]) 0 = Some Pending \<and>
      messageQueue (run JSON_parse s [Shutdown ''SIGTERM signal'', ProcessExit None (Some ''SIGTERM'')]) ''0'' = Some 0 \<and>
      promises (run JSON_parse s [Shutdown ''SIGTERM signal'', ProcessExit None (Some ''SIGTERM'')]) 0 = Some Pending"
  by (simp add: sendRequest_eq getTool_call_def new_StdioClient_def js_String.simps
      digit_char_def on_exit_def shutdownNotionMCPServer_def console_print_def Let_def)

subsection \<open>C6: malformed lines\<close>

text \<open>
  C6. For every chunk and every parser: the listener prints the chunk, whole, and handles
  the lines of the trimmed chunk one after the other. A line that does not start with
  \<^verbatim>\<open>{\<close> or that \<^verbatim>\<open>JSON.parse\<close> refuses is a part of the printed chunk, and changes
  nothing but the console, in whatever state it is handled: no promise is settled by it,
  no entry removed, no timer touched, nothing is thrown. When it is not empty it is also
  printed on its own: as skipped when it does not start with \<^verbatim>\<open>{\<close>, with the error when
  it fails to parse. The loop goes on: the state after the chunk is, the console aside,
  the state reached by handling only the other lines, all of them, in their order.
\<close>

theorem malformed_lines_are_skipped:
  "frame (on_data parse rawData s) =
     frame (foldl (\<lambda>s' m. handle_message parse m s') s
              (filter (\<lambda>l. \<not> malformed parse l) (split_newline (trim rawData)))) \<and>
   RawResponse rawData \<in> set (console (on_data parse rawData s)) \<and>
   (\<forall>l \<in> set (split_newline (trim rawData)). malformed parse l \<longrightarrow>
      (\<exists>a b. rawData = a @ l @ b) \<and>
      (\<forall>s'. frame (handle_message parse l s') = frame s') \<and>
      (l \<noteq> [] \<and> \<not> startsWith_brace l \<longrightarrow>
         SkippingNonJSON l \<in> set (console (on_data parse rawData s))) \<and>
      (startsWith_brace l \<and> parse l = None \<longrightarrow>
         ErrorParsingJSON l \<in> set (console (on_data parse rawData s))))"
proof (intro conjI ballI impI allI)
  let ?ls = "split_newline (trim rawData)"
  let ?s0 = "console_print (RawResponse rawData) s"
  show "frame (on_data parse rawData s) =
     frame (foldl (\<lambda>s' m. handle_message parse m s') s (filter (\<lambda>l. \<not> malformed parse l) ?ls))"
    unfolding on_data_def by (rule foldl_handle_filter) simp
  from console_foldl_handle[of parse ?s0 ?ls]
  show "RawResponse rawData \<in> set (console (on_data parse rawData s))"
    unfolding on_data_def by (auto simp: console_print_def)
  fix l assume l: "l \<in> set ?ls" and m: "malformed parse l"
  show "\<exists>a b. rawData = a @ l @ b" by (rule line_part_of_chunk[OF l])
  show "frame (handle_message parse l s') = frame s'" for s'
    by (rule malformed_no_effect[OF m])
  note pr = printed_foldl_handle[OF l, of parse ?s0]
  show "SkippingNonJSON l \<in> set (console (on_data parse rawData s))"
    if "l \<noteq> [] \<and> \<not> startsWith_brace l"
    using pr that unfolding on_data_def by blast
  show "ErrorParsingJSON l \<in> set (console (on_data parse rawData s))"
    if "startsWith_brace l \<and> parse l = None"
    using pr that unfolding on_data_def by blast
qed

theorem malformed_lines_are_skipped_witness:
  \<open>let s = run JSON_parse new_StdioClient [ListTools, SendRequest ''tools/call'' (JObj [])];
       l1 = ''{"id":"0","result":{"tools":[]}}'';
       l2 = ''npm WARN deprecated'';
       l3 = ''{"id":"1","result":'';
       l5 = ''{"id":"1","result":{}}'';
       c = l1 @ [newline] @ l2 @ [newline] @ l3 @ [newline] @ [newline] @ l5 @ [newline];
       s' = on_data JSON_parse c s
   in split_newline (trim c) = [l1, l2, l3, [], l5] \<and>
      \<not> malformed JSON_parse l1 \<and> malformed JSON_parse l2 \<and> malformed JSON_parse l3 \<and>
      malformed JSON_parse [] \<and> \<not> malformed JSON_parse l5 \<and>
      promises s 0 = Some Pending \<and> promises s 1 = Some Pending \<and>
      promises s' 0 = Some (Resolved (JObj [(''tools'', JArr [])])) \<and>
      promises s' 1 = Some (Resolved (JObj [])) \<and>
      messageQueue s' ''0'' = None \<and> messageQueue s' ''1'' = None \<and>
      SkippingNonJSON l2 \<in> set (console s') \<and> ErrorParsingJSON l3 \<in> set (console s')\<close>
proof -
  define s where "s = run JSON_parse new_StdioClient [ListTools, SendRequest ''tools/call'' (JObj [])]"
  define l1 where \<open>l1 = ''{"id":"0","result":{"tools":[]}}''\<close>
  define l2 where \<open>l2 = ''npm WARN deprecated''\<close>
  define l3 where \<open>l3 = ''{"id":"1","result":''\<close>
  define l5 where \<open>l5 = ''{"id":"1","result":{}}''\<close>
  define c where "c = l1 @ [newline] @ l2 @ [newline] @ l3 @ [newline] @ [newline] @ l5 @ [newline]"
  define s' where "s' = on_data JSON_parse c s"
  define r1 where "r1 = JObj [(''id'', JStr ''0''), (''result'', JObj [(''tools'', JArr [])])]"
  define r5 where "r5 = JObj [(''id'', JStr ''1''), (''result'', JObj [])]"
  have p1: "JSON_parse l1 = Some r1" unfolding l1_def r1_def by code_simp
  have p3: "JSON_parse l3 = None" unfolding l3_def by code_simp
  have p5: "JSON_parse l5 = Some r5" unfolding l5_def r5_def by code_simp
  have sb: "startsWith_brace l1" "\<not> startsWith_brace l2" "startsWith_brace l3"
    "\<not> startsWith_brace []" "startsWith_brace l5"
    by (simp_all add: startsWith_brace_def l1_def l2_def l3_def l5_def)
  have ne: "l1 \<noteq> []" "l2 \<noteq> []" "l5 \<noteq> []" by (simp_all add: l1_def l2_def l5_def)
  have m: "\<not> malformed JSON_parse l1" "malformed JSON_parse l2" "malformed JSON_parse l3"
    "malformed JSON_parse []" "\<not> malformed JSON_parse l5"
    by (simp_all add: malformed_def sb p1 p3 p5)
  have lines: "split_newline (trim c) = [l1, l2, l3, [], l5]"
    by (simp add: c_def l1_def l2_def l3_def l5_def trim_def is_space_def newline_def)
  have g: "get_property r1 ''id'' = Some (JStr ''0'')" "get_property r5 ''id'' = Some (JStr ''1'')"
    "prop_of r1 ''error'' = JUndefined" "prop_of r5 ''error'' = JUndefined"
    "prop_of r1 ''result'' = JObj [(''tools'', JArr [])]" "prop_of r5 ''result'' = JObj []"
    by (simp_all add: r1_def r5_def prop_of_def)
  have s0: "promises s 0 = Some Pending" "promises s 1 = Some Pending"
    "messageQueue s ''0'' = Some 0" "messageQueue s ''1'' = Some 1"
    by (simp_all add: s_def sendRequest_eq listTools_def new_StdioClient_def js_String.simps
        digit_char_def js_increment_def max_safe_def)
  have s0': "promises s (Suc 0) = Some Pending" using s0(2) by simp
  note th = malformed_lines_are_skipped[of JSON_parse c s, unfolded lines, folded s'_def]
  have f: "frame s' = frame (handle_message JSON_parse l5 (handle_message JSON_parse l1 s))"
    using th[THEN conjunct1] by (simp add: m)
  have h1: "promises (handle_message JSON_parse l1 s) = (promises s)(0 \<mapsto> Resolved (JObj [(''tools'', JArr [])]))"
    "messageQueue (handle_message JSON_parse l1 s) = (messageQueue s)(''0'' := None)"
    by (simp_all add: handle_message_def settle_pending_def ops Let_def sb ne p1 g s0)
  have h5: "promises (handle_message JSON_parse l5 (handle_message JSON_parse l1 s)) =
      (promises s)(0 \<mapsto> Resolved (JObj [(''tools'', JArr [])]), 1 \<mapsto> Resolved (JObj []))"
    "messageQueue (handle_message JSON_parse l5 (handle_message JSON_parse l1 s)) =
      (messageQueue s)(''0'' := None, ''1'' := None)"
    by (simp_all add: handle_message_def[of JSON_parse l5] settle_pending_def ops Let_def sb ne p5 g s0 s0' h1)
  have fp: "promises s' = promises (handle_message JSON_parse l5 (handle_message JSON_parse l1 s))"
    "messageQueue s' = messageQueue (handle_message JSON_parse l5 (handle_message JSON_parse l1 s))"
    using f frame_fields by metis+
  have k2: "SkippingNonJSON l2 \<in> set (console s')"
    using th[THEN conjunct2, THEN conjunct2] m sb ne by simp
  have k3: "ErrorParsingJSON l3 \<in> set (console s')"
    using th[THEN conjunct2, THEN conjunct2] m sb p3 by simp
  have "split_newline (trim c) = [l1, l2, l3, [], l5] \<and>
      \<not> malformed JSON_parse l1 \<and> malformed JSON_parse l2 \<and> malformed JSON_parse l3 \<and>
      malformed JSON_parse [] \<and> \<not> malformed JSON_parse l5 \<and>
      promises s 0 = Some Pending \<and> promises s 1 = Some Pending \<and>
      promises s' 0 = Some (Resolved (JObj [(''tools'', JArr [])])) \<and>
      promises s' 1 = Some (Resolved (JObj [])) \<and>
      messageQueue s' ''0'' = None \<and> messageQueue s' ''1'' = None \<and>
      SkippingNonJSON l2 \<in> set (console s') \<and> ErrorParsingJSON l3 \<in> set (console s')"
    using lines m s0 k2 k3 by (simp add: fp h5)
  then show ?thesis
    unfolding Let_def s'_def c_def s_def l1_def l2_def l3_def l5_def .
qed

subsection \<open>C7: \<^verbatim>\<open>listTools\<close> and the failures of \<^verbatim>\<open>sendRequest\<close>\<close>

text \<open>
  C7. Whenever the promise of the underlying \<^verbatim>\<open>sendRequest("tools/list", {})\<close> is
  rejected, whatever the error, \<^verbatim>\<open>listTools\<close> resolves with \<^verbatim>\<open>{tools: []}\<close>, the empty
  sequence of tools; a caller of \<^verbatim>\<open>sendRequest\<close> through \<^verbatim>\<open>getTool(...).call\<close> gets the
  rejection itself. The two failures \<^verbatim>\<open>sendRequest\<close> has: when the timer of a call runs
  right after the call, its promise is rejected with the timeout error naming the method;
  when the process answers the call with an envelope whose \<^verbatim>\<open>error\<close> is truthy, its
  promise is rejected with \<^verbatim>\<open>new Error(response.error.message)\<close>. Both reach the caller
  of \<^verbatim>\<open>sendRequest\<close> and both are swallowed by \<^verbatim>\<open>listTools\<close>.
\<close>

theorem listTools_degrades:
  "fst (listTools_resume (Rejected e) s) = Resolved (JObj [(''tools'', JArr [])]) \<and>
   fst (call_resume (Rejected e) s) = Rejected e \<and>
   promises (fire_timeout (fst (listTools s)) (snd (listTools s))) (fst (listTools s))
     = Some (Rejected (timeout_error ''tools/list'')) \<and>
   promises (fire_timeout (fst (sendRequest m p s)) (snd (sendRequest m p s)))
     (fst (sendRequest m p s)) = Some (Rejected (timeout_error m)) \<and>
   (startsWith_brace l \<and> parse l = Some r \<and>
    get_property r ''id'' = Some (JStr (js_String (messageId s))) \<and>
    truthy (prop_of r ''error'') \<longrightarrow>
      promises (handle_message parse l (snd (listTools s))) (fst (listTools s))
        = Some (Rejected (JsError (prop_of (prop_of r ''error'') ''message''))) \<and>
      promises (handle_message parse l (snd (sendRequest m p s))) (fst (sendRequest m p s))
        = Some (Rejected (JsError (prop_of (prop_of r ''error'') ''message''))))"
  using sendRequest_then_response[of l parse r s]
  by (simp add: listTools_resume_def call_resume_def listTools_def sendRequest_then_timeout
      settled_def)

theorem listTools_degrades_witness:
  \<open>let l = ''{"id":"0","error":{"message":"boom"}}'';
       r = JObj [(''id'', JStr ''0''), (''error'', JObj [(''message'', JStr ''boom'')])];
       s = new_StdioClient;
       out = promises (on_data JSON_parse (l @ [newline]) (snd (listTools s))) (fst (listTools s))
   in startsWith_brace l \<and> JSON_parse l = Some r \<and>
      get_property r ''id'' = Some (JStr (js_String (messageId s))) \<and>
      truthy (prop_of r ''error'') \<and>
      out = Some (Rejected (JsError (JStr ''boom''))) \<and>
      fst (listTools_resume (Rejected (JsError (JStr ''boom''))) s) = Resolved (JObj [(''tools'', JArr [])]) \<and>
      fst (call_resume (Rejected (JsError (JStr ''boom''))) s) = Rejected (JsError (JStr ''boom''))\<close>
proof -
  let ?l = \<open>''{"id":"0","error":{"message":"boom"}}''\<close>
  let ?r = "JObj [(''id'', JStr ''0''), (''error'', JObj [(''message'', JStr ''boom'')])]"
  have p: "JSON_parse ?l = Some ?r" by code_simp
  have sb: "startsWith_brace ?l" by (simp add: startsWith_brace_def)
  have i: "js_String (messageId new_StdioClient) = ''0''"
    by (simp add: new_StdioClient_def js_String.simps digit_char_def)
  have g: "get_property ?r ''id'' = Some (JStr (js_String (messageId new_StdioClient)))"
    unfolding i by simp
  have e: "prop_of ?r ''error'' = JObj [(''message'', JStr ''boom'')]"
    by (simp add: prop_of_def)
  have t: "truthy (prop_of ?r ''error'')" unfolding e by simp
  have m: "prop_of (prop_of ?r ''error'') ''message'' = JStr ''boom''"
    unfolding e by (simp add: prop_of_def)
  have lines: "split_newline (trim (?l @ [newline])) = [?l]"
    by (simp add: trim_def is_space_def newline_def)
  have od: "on_data JSON_parse (?l @ [newline]) (snd (listTools new_StdioClient)) =
      handle_message JSON_parse ?l
        (console_print (RawResponse (?l @ [newline])) (snd (listTools new_StdioClient)))"
    unfolding on_data_def lines by simp
  have cp: "promises (handle_message JSON_parse ?l (console_print e' s')) = 
            promises (handle_message JSON_parse ?l s')" for e' s'
    using p sb by (simp add: handle_message_def settle_pending_def ops Let_def split: option.splits jsval.splits)
  from listTools_degrades[of "JsError (JStr ''boom'')" new_StdioClient "''tools/list''" "JObj []" ?l JSON_parse ?r]
    p sb g t
  have "promises (handle_message JSON_parse ?l (snd (listTools new_StdioClient))) (fst (listTools new_StdioClient))
        = Some (Rejected (JsError (JStr ''boom'')))"
    and "fst (listTools_resume (Rejected (JsError (JStr ''boom''))) new_StdioClient) = Resolved (JObj [(''tools'', JArr [])])"
    and "fst (call_resume (Rejected (JsError (JStr ''boom''))) new_StdioClient) = Rejected (JsError (JStr ''boom''))"
    unfolding m by blast+
  with p sb g t show ?thesis
    unfolding Let_def od cp by blast
qed

subsection \<open>C8: shutdown\<close>

text \<open>
  C8. \<^verbatim>\<open>shutdownNotionMCPServer\<close> is idempotent. When no process is running (the
  module's variable is \<^verbatim>\<open>null\<close>) a call changes nothing but the console, where it
  prints its one line; after any call no process is running, so a second call is such a
  no-op. In no state does the call touch the pending request table, a promise or a timer:
  no entry is removed or rejected by it.
\<close>

theorem shutdown_idempotent_frame:
  "(\<not> notionMCPServerProcess s \<longrightarrow>
      shutdownNotionMCPServer reason s = s\<lparr>console := console s @ [ShuttingDown reason]\<rparr>) \<and>
   \<not> notionMCPServerProcess (shutdownNotionMCPServer reason s) \<and>
   shutdownNotionMCPServer reason' (shutdownNotionMCPServer reason s) =
     (shutdownNotionMCPServer reason s)
       \<lparr>console := console (shutdownNotionMCPServer reason s) @ [ShuttingDown reason']\<rparr> \<and>
   messageQueue (shutdownNotionMCPServer reason s) = messageQueue s \<and>
   promises (shutdownNotionMCPServer reason s) = promises s \<and>
   timers (shutdownNotionMCPServer reason s) = timers s"
  by (simp add: shutdownNotionMCPServer_def console_print_def Let_def)

theorem shutdown_idempotent_frame_witness:
  "let s = shutdownNotionMCPServer ''SIGINT signal''
             (snd (sendRequest ''tools/list'' (JObj []) new_StdioClient))
   in \<not> notionMCPServerProcess s \<and>
      shutdownNotionMCPServer ''process exit'' s =
        s\<lparr>console := console s @ [ShuttingDown ''process exit'']\<rparr> \<and>
      kill_signals (shutdownNotionMCPServer ''process exit'' s) = 1 \<and>
      messageQueue (shutdownNotionMCPServer ''process exit'' s) ''0'' = Some 0 \<and>
      promises (shutdownNotionMCPServer ''process exit'' s) 0 = Some Pending"
proof -
  define s where "s = shutdownNotionMCPServer ''SIGINT signal''
             (snd (sendRequest ''tools/list'' (JObj []) new_StdioClient))"
  have n: "\<not> notionMCPServerProcess s"
    by (simp add: s_def shutdownNotionMCPServer_def console_print_def Let_def)
  have k: "kill_signals s = 1" "messageQueue s ''0'' = Some 0" "promises s 0 = Some Pending"
    by (simp_all add: s_def shutdownNotionMCPServer_def console_print_def Let_def sendRequest_eq
        new_StdioClient_def js_String.simps digit_char_def)
  note th = shutdown_idempotent_frame[of s "''process exit''"]
  from th n have e: "shutdownNotionMCPServer ''process exit'' s =
        s\<lparr>console := console s @ [ShuttingDown ''process exit'']\<rparr>" by blast
  have "\<not> notionMCPServerProcess s \<and>
      shutdownNotionMCPServer ''process exit'' s =
        s\<lparr>console := console s @ [ShuttingDown ''process exit'']\<rparr> \<and>
      kill_signals (shutdownNotionMCPServer ''process exit'' s) = 1 \<and>
      messageQueue (shutdownNotionMCPServer ''process exit'' s) ''0'' = Some 0 \<and>
      promises (shutdownNotionMCPServer ''process exit'' s) 0 = Some Pending"
    using n e k by simp
  then show ?thesis unfolding Let_def s_def .
qed

subsection \<open>C9: \<^verbatim>\<open>getServerInfo\<close>\<close>

text \<open>
  C9. \<^verbatim>\<open>getServerInfo\<close> returns a promise resolved with the fixed record
  \<^verbatim>\<open>{name: "notion-mcp-server", version: "1.5.0"}\<close>, in every state of the client and of
  the process; it never rejects. It leaves the whole state as it is: nothing is written
  to the process, nothing is read from it, no request becomes pending.
\<close>

theorem getServerInfo_fixed:
  "getServerInfo s =
     (Resolved (JObj [(''name'', JStr ''notion-mcp-server''), (''version'', JStr ''1.5.0'')]), s) \<and>
   step parse s GetServerInfo = s"
  by (simp add: getServerInfo_def server_info_def)

subsection \<open>C10: the entry is stored before the request is written\<close>

text \<open>
  C10 (as the code has it). A call of \<^verbatim>\<open>sendRequest\<close> arms the timer with 10000 ms,
  then stores the entry under the identifier of the call, then writes the request: these
  are its calls on the timers, the table and the stream, in this order. The request is
  written in a state in which the entry is in the table, the timer is armed and the
  promise is pending; until then nothing has been written. In every run, the calls made
  on the timers, the table and the stream are those three of each call of
  \<^verbatim>\<open>sendRequest\<close>, call after call: wherever a request is written, the two calls before
  are the arming of the timer of that call and the storing of its entry, under the
  identifier of the request. Hence, in every run, every request written to the process
  among the first \<open>2^53\<close> either has its entry in the table, under its identifier, or
  its promise has been resolved or rejected (a timeout rejects).
\<close>

theorem entry_registered_before_write:
  "(let i = js_String (messageId s); h = nextHandle s; r = make_request i m p;
        t = \<lparr>captured_id = i, captured_method = m, delay_ms = 10000\<rparr>;
        s5 = register_pending h i m
               (snd (new_Promise (console_print (SendingRequest r)
                                    (s\<lparr>messageId := js_increment (messageId s)\<rparr>))))
    in sendRequest m p s = (h, stdin_write r s5) \<and>
       stdin s5 = stdin s \<and> stdin (stdin_write r s5) = stdin s @ [r] \<and> rid r = i \<and>
       messageQueue s5 i = Some h \<and> timers s5 h = Some t \<and> promises s5 h = Some Pending \<and>
       effects s5 = effects s @ [TimerArmed h t, EntryStored i h] \<and>
       effects (snd (sendRequest m p s)) =
         effects s @ [TimerArmed h t, EntryStored i h, LineWritten r]) \<and>
   (s = run parse new_StdioClient evs \<longrightarrow>
      length (stdin s) = calls evs \<and>
      effects s =
        concat (map (\<lambda>k. [TimerArmed k \<lparr>captured_id = rid (stdin s ! k),
                                        captured_method = rmethod (stdin s ! k),
                                        delay_ms = 10000\<rparr>,
                           EntryStored (rid (stdin s ! k)) k,
                           LineWritten (stdin s ! k)])
                  [0..<length (stdin s)]) \<and>
      (\<forall>n r. n < length (effects s) \<and> effects s ! n = LineWritten r \<longrightarrow>
         2 \<le> n \<and> n div 3 < length (stdin s) \<and> r = stdin s ! (n div 3) \<and>
         effects s ! (n - 2) =
           TimerArmed (n div 3)
             \<lparr>captured_id = rid r, captured_method = rmethod r, delay_ms = 10000\<rparr> \<and>
         effects s ! (n - 1) = EntryStored (rid r) (n div 3)) \<and>
      (\<forall>k < length (stdin s). k < 2 ^ 53 \<longrightarrow>
         messageQueue s (rid (stdin s ! k)) = Some k \<or>
         (\<exists>v. promises s k = Some (Resolved v)) \<or> (\<exists>e. promises s k = Some (Rejected e))))"
proof (intro conjI impI allI)
  show "let i = js_String (messageId s); h = nextHandle s; r = make_request i m p;
        t = \<lparr>captured_id = i, captured_method = m, delay_ms = 10000\<rparr>;
        s5 = register_pending h i m
               (snd (new_Promise (console_print (SendingRequest r)
                                    (s\<lparr>messageId := js_increment (messageId s)\<rparr>))))
    in sendRequest m p s = (h, stdin_write r s5) \<and>
       stdin s5 = stdin s \<and> stdin (stdin_write r s5) = stdin s @ [r] \<and> rid r = i \<and>
       messageQueue s5 i = Some h \<and> timers s5 h = Some t \<and> promises s5 h = Some Pending \<and>
       effects s5 = effects s @ [TimerArmed h t, EntryStored i h] \<and>
       effects (snd (sendRequest m p s)) =
         effects s @ [TimerArmed h t, EntryStored i h, LineWritten r]"
    by (simp add: sendRequest_def ops Let_def make_request_def)
next
  assume s: "s = run parse new_StdioClient evs"
  have inv: "client_inv s" unfolding s by (rule inv_reachable)
  show "length (stdin s) = calls evs"
    using client_invD(2)[OF inv] nextHandle_reachable[of parse evs] s by simp
  show e: "effects s =
        concat (map (\<lambda>k. [TimerArmed k \<lparr>captured_id = rid (stdin s ! k),
                                        captured_method = rmethod (stdin s ! k),
                                        delay_ms = 10000\<rparr>,
                           EntryStored (rid (stdin s ! k)) k,
                           LineWritten (stdin s ! k)])
                  [0..<length (stdin s)])"
    unfolding s by (rule effects_reachable)
  {
    fix n r assume w: "n < length (effects s) \<and> effects s ! n = LineWritten r"
    note wp = write_preceded[OF e conjunct1[OF w] conjunct2[OF w]]
    show "2 \<le> n" by (rule wp[THEN conjunct1])
    show "n div 3 < length (stdin s)" by (rule wp[THEN conjunct2, THEN conjunct1])
    show "r = stdin s ! (n div 3)" by (rule wp[THEN conjunct2, THEN conjunct2, THEN conjunct1])
    show "effects s ! (n - 2) =
           TimerArmed (n div 3)
             \<lparr>captured_id = rid r, captured_method = rmethod r, delay_ms = 10000\<rparr>"
      by (rule wp[THEN conjunct2, THEN conjunct2, THEN conjunct2, THEN conjunct1])
    show "effects s ! (n - 1) = EntryStored (rid r) (n div 3)"
      by (rule wp[THEN conjunct2, THEN conjunct2, THEN conjunct2, THEN conjunct2])
  }
  fix k assume "k < length (stdin s)" "k < 2 ^ 53"
  then show "messageQueue s (rid (stdin s ! k)) = Some k \<or>
     (\<exists>v. promises s k = Some (Resolved v)) \<or> (\<exists>e. promises s k = Some (Rejected e))"
    using written_request_accounted[OF inv, of k] by (simp add: max_safe_def)
qed

theorem entry_registered_before_write_witness:
  \<open>let evs = [ListTools, ToolCall ''API'' ''post-search'' (JObj []),
              SendRequest ''tools/call'' (JObj []),
              Data (''{"id":"0","result":{"tools":[]}}'' @ [newline]), TimerFires 1];
       s = run JSON_parse new_StdioClient evs;
       r0 = \<lparr>jsonrpc = ''2.0'', rid = ''0'', rmethod = ''tools/list'', rparams = JObj []\<rparr>;
       r1 = \<lparr>jsonrpc = ''2.0'', rid = ''1'', rmethod = ''tools/call'',
             rparams = JObj [(''name'', JStr ''API-post-search''), (''arguments'', JObj [])]\<rparr>;
       r2 = \<lparr>jsonrpc = ''2.0'', rid = ''2'', rmethod = ''tools/call'', rparams = JObj []\<rparr>
   in length (stdin s) = 3 \<and> stdin s = [r0, r1, r2] \<and>
      effects s =
        [TimerArmed 0 \<lparr>captured_id = ''0'', captured_method = ''tools/list'', delay_ms = 10000\<rparr>,
         EntryStored ''0'' 0, LineWritten r0,
         TimerArmed 1 \<lparr>captured_id = ''1'', captured_method = ''tools/call'', delay_ms = 10000\<rparr>,
         EntryStored ''1'' 1, LineWritten r1,
         TimerArmed 2 \<lparr>captured_id = ''2'', captured_method = ''tools/call'', delay_ms = 10000\<rparr>,
         EntryStored ''2'' 2, LineWritten r2] \<and>
      (8::nat) < length (effects s) \<and> effects s ! 8 = LineWritten r2 \<and>
      effects s ! (8 - 2) =
        TimerArmed (8 div 3) \<lparr>captured_id = rid r2, captured_method = rmethod r2, delay_ms = 10000\<rparr> \<and>
      effects s ! (8 - 1) = EntryStored (rid r2) (8 div 3) \<and>
      promises s 0 = Some (Resolved (JObj [(''tools'', JArr [])])) \<and>
      promises s 1 = Some (Rejected (JsError (JStr ''Request timed out after 10 seconds: tools/call''))) \<and>
      promises s 2 = Some Pending \<and> messageQueue s ''2'' = Some 2 \<and>
      messageQueue s ''0'' = None \<and> messageQueue s ''1'' = None \<and>
      (2::nat) < length (stdin s) \<and> (2::nat) < 2 ^ 53 \<and>
      (messageQueue s (rid (stdin s ! 2)) = Some 2 \<or>
       (\<exists>v. promises s 2 = Some (Resolved v)) \<or> (\<exists>e. promises s 2 = Some (Rejected e)))\<close>
proof -
  define l where \<open>l = ''{"id":"0","result":{"tools":[]}}''\<close>
  define r where "r = JObj [(''id'', JStr ''0''), (''result'', JObj [(''tools'', JArr [])])]"
  define evs where "evs = [ListTools, ToolCall ''API'' ''post-search'' (JObj []),
              SendRequest ''tools/call'' (JObj []), Data (l @ [newline]), TimerFires 1]"
  define s where "s = run JSON_parse new_StdioClient evs"
  define r0 where "r0 = \<lparr>jsonrpc = ''2.0'', rid = ''0'', rmethod = ''tools/list'', rparams = JObj []\<rparr>"
  define r1 where "r1 = \<lparr>jsonrpc = ''2.0'', rid = ''1'', rmethod = ''tools/call'',
             rparams = JObj [(''name'', JStr ''API-post-search''), (''arguments'', JObj [])]\<rparr>"
  define r2 where "r2 = \<lparr>jsonrpc = ''2.0'', rid = ''2'', rmethod = ''tools/call'', rparams = JObj []\<rparr>"
  have p: "JSON_parse l = Some r" unfolding l_def r_def by code_simp
  have sb: "startsWith_brace l" "l \<noteq> []" by (simp_all add: startsWith_brace_def l_def)
  have lines: "split_newline (trim (l @ [newline])) = [l]"
    by (simp add: l_def trim_def is_space_def newline_def)
  have g: "get_property r ''id'' = Some (JStr ''0'')" "prop_of r ''error'' = JUndefined"
    "prop_of r ''result'' = JObj [(''tools'', JArr [])]"
    by (simp_all add: r_def prop_of_def)
  have c: "calls evs = 3" by (simp add: evs_def)
  have s0: "stdin s = [r0, r1, r2]"
    "promises s 0 = Some (Resolved (JObj [(''tools'', JArr [])]))"
    "promises s 1 = Some (Rejected (JsError (JStr ''Request timed out after 10 seconds: tools/call'')))"
    "promises s 2 = Some Pending" "messageQueue s ''2'' = Some 2"
    "messageQueue s ''0'' = None" "messageQueue s ''1'' = None"
    by (simp_all add: s_def evs_def sendRequest_eq listTools_def getTool_call_def
        new_StdioClient_def js_String.simps digit_char_def js_increment_def max_safe_def
        make_request_def on_data_def lines handle_message_def p sb g settle_pending_def ops
        fire_timeout_def timeout_callback_def timeout_error_def Let_def r0_def r1_def r2_def)
  have rs: "rid r0 = ''0''" "rmethod r0 = ''tools/list''" "rid r1 = ''1''" "rmethod r1 = ''tools/call''"
    "rid r2 = ''2''" "rmethod r2 = ''tools/call''"
    by (simp_all add: r0_def r1_def r2_def)
  note th = entry_registered_before_write[of s "''tools/call''" "JObj []" JSON_parse evs,
      THEN conjunct2, rule_format, OF s_def]
  have len: "length (stdin s) = 3" using th[THEN conjunct1] unfolding c .
  have up: "[0..<3] = [0, 1, 2]" by (simp add: upt_rec)
  have ef: "effects s =
        [TimerArmed 0 \<lparr>captured_id = ''0'', captured_method = ''tools/list'', delay_ms = 10000\<rparr>,
         EntryStored ''0'' 0, LineWritten r0,
         TimerArmed 1 \<lparr>captured_id = ''1'', captured_method = ''tools/call'', delay_ms = 10000\<rparr>,
         EntryStored ''1'' 1, LineWritten r1,
         TimerArmed 2 \<lparr>captured_id = ''2'', captured_method = ''tools/call'', delay_ms = 10000\<rparr>,
         EntryStored ''2'' 2, LineWritten r2]"
    using th[THEN conjunct2, THEN conjunct1] unfolding len up s0(1) by (simp add: rs)
  have w: "(8::nat) < length (effects s) \<and> effects s ! 8 = LineWritten r2"
    unfolding ef by simp
  note pre = th[THEN conjunct2, THEN conjunct2, THEN conjunct1, rule_format, OF w]
  have b: "(2::nat) < length (stdin s)" "(2::nat) < 2 ^ 53" by (simp_all add: len)
  note acc = th[THEN conjunct2, THEN conjunct2, THEN conjunct2, rule_format, OF b]
  have "length (stdin s) = 3 \<and> stdin s = [r0, r1, r2] \<and>
      effects s =
        [TimerArmed 0 \<lparr>captured_id = ''0'', captured_method = ''tools/list'', delay_ms = 10000\<rparr>,
         EntryStored ''0'' 0, LineWritten r0,
         TimerArmed 1 \<lparr>captured_id = ''1'', captured_method = ''tools/call'', delay_ms = 10000\<rparr>,
         EntryStored ''1'' 1, LineWritten r1,
         TimerArmed 2 \<lparr>captured_id = ''2'', captured_method = ''tools/call'', delay_ms = 10000\<rparr>,
         EntryStored ''2'' 2, LineWritten r2] \<and>
      (8::nat) < length (effects s) \<and> effects s ! 8 = LineWritten r2 \<and>
      effects s ! (8 - 2) =
        TimerArmed (8 div 3) \<lparr>captured_id = rid r2, captured_method = rmethod r2, delay_ms = 10000\<rparr> \<and>
      effects s ! (8 - 1) = EntryStored (rid r2) (8 div 3) \<and>
      promises s 0 = Some (Resolved (JObj [(''tools'', JArr [])])) \<and>
      promises s 1 = Some (Rejected (JsError (JStr ''Request timed out after 10 seconds: tools/call''))) \<and>
      promises s 2 = Some Pending \<and> messageQueue s ''2'' = Some 2 \<and>
      messageQueue s ''0'' = None \<and> messageQueue s ''1'' = None \<and>
      (2::nat) < length (stdin s) \<and> (2::nat) < 2 ^ 53 \<and>
      (messageQueue s (rid (stdin s ! 2)) = Some 2 \<or>
       (\<exists>v. promises s 2 = Some (Resolved v)) \<or> (\<exists>e. promises s 2 = Some (Rejected e)))"
    using len s0 ef w pre[THEN conjunct2, THEN conjunct2, THEN conjunct2] b acc by (intro conjI) blast+
  then show ?thesis unfolding Let_def s_def evs_def l_def r0_def r1_def r2_def .
qed

text \<open>
  The conclusion of the claim, for every request, fails from call number \<open>2^53 + 1\<close>
  on. In the run below each of the first \<open>2^53\<close> calls is settled, by its timer, before the
  next call is made; then two calls are made, and the timer of the first of them runs. The request
  of the last call has been written, the table holds no entry under its identifier, its
  timer is still armed and its promise is pending.
\<close>

theorem written_request_absent_after_2_53_counterexample:
  "let s = run JSON_parse new_StdioClient
             (concat (map (\<lambda>k. [SendRequest ''tools/call'' (JObj []), TimerFires k]) [0..<2 ^ 53]) @
              [SendRequest ''tools/call'' (JObj []), SendRequest ''tools/call'' (JObj []),
               TimerFires (2 ^ 53)])
   in length (stdin s) = 2 ^ 53 + 2 \<and>
      rid (stdin s ! (2 ^ 53 + 1)) = ''9007199254740992'' \<and>
      messageQueue s ''9007199254740992'' = None \<and>
      promises s (2 ^ 53 + 1) = Some Pending \<and>
      timers s (2 ^ 53 + 1) =
        Some \<lparr>captured_id = ''9007199254740992'', captured_method = ''tools/call'',
              delay_ms = 10000\<rparr>"
  using absent_and_unsettled[OF calls_timed_out[of "''tools/call''" "JObj []" max_safe], of JSON_parse
      "''tools/call''" "JObj []"]
  unfolding max_safe_def Let_def js_String_2_53 by (intro conjI)

end
